theory Spec2Isabelle
  imports Complex_Main
begin

section \<open>The file browser model of \<^verbatim>\<open>src/lib/model.js\<close>\<close>

text \<open>
  The development embeds the three classes of \<^verbatim>\<open>src/lib/model.js\<close>
  (\<^verbatim>\<open>FileBrowserModel\<close>, \<^verbatim>\<open>TogglableHiddenFileBrowserModel\<close>,
  \<^verbatim>\<open>FilterFileBrowserModel\<close>). An object is a record of its fields, a method is a
  function from the record to the updated record, and everything a method does to the
  outside (a signal it emits, a request it sends) is appended to the \<open>trace\<close> field,
  so that the order of the effects can be stated.
\<close>

subsection \<open>Data\<close>

text \<open>
  \<^verbatim>\<open>Contents.IModel\<close>: one entry of a listing. \<open>c_indices\<close> is the property
  \<^verbatim>\<open>indices\<close> that \<^verbatim>\<open>FilterFileBrowserModel.items\<close> writes; \<open>None\<close> is
  \<^verbatim>\<open>undefined\<close>.
\<close>

record entry =
  c_name :: string
  c_path :: string
  c_type :: string
  c_writable :: bool
  c_created :: string
  c_last_modified :: string
  c_mimetype :: string
  c_format :: string
  c_indices :: "nat list option"

text \<open>What \<^verbatim>\<open>contents.get(path, {content: true})\<close> answers for a directory.\<close>

record contents =
  d_entry :: entry
  d_content :: "entry list"

record session =
  s_id :: string
  s_path :: string

text \<open>
  An element of \<^verbatim>\<open>_uploads\<close>. JavaScript compares objects by identity
  (\<^verbatim>\<open>indexOf\<close>), so every object carries the address \<open>u_id\<close> it was allocated at.
\<close>

record upload_item =
  u_id :: nat
  u_path :: string
  u_progress :: rat

record upload_file =
  f_name :: string
  f_size :: nat

text \<open>An error of the content service: \<^verbatim>\<open>error.response.status\<close> (if any) and the message.\<close>

record error =
  response_status :: "nat option"
  message :: string

datatype upload_event = UStart | UUpdate | UFinish | UFailure

text \<open>
  The effects, in the order the code performs them: a request to a service, or the call of
  a signal's \<^verbatim>\<open>emit\<close>. \<open>SignalsCleared\<close> is the call \<^verbatim>\<open>Signal.clearData(this)\<close> of
  \<^verbatim>\<open>dispose\<close>, \<open>CdCall\<close> a call of \<^verbatim>\<open>this.cd\<close> by \<^verbatim>\<open>restore\<close>.
\<close>

datatype effect =
    ContentsGet string
  | ContentsSave string "int option"
  | StateSave string string
  | StateFetch string
  | StateRemove string
  | CdCall string
  | ContentsGetPlain "string option"
  | RestoredResolve
  | PathChanged string string
  | Refreshed
  | ConnectionFailure error
  | SignalsCleared
  | UploadChanged upload_event "upload_item option" "upload_item option"

text \<open>
  The fields of \<^verbatim>\<open>FileBrowserModel\<close> (without the leading underscore), followed by what the
  JavaScript runtime and the two services hold for it:
  \<^item> \<open>running\<close>: the snapshot \<^verbatim>\<open>services.sessions.running()\<close> returns;
  \<^item> \<open>inflight\<close>: the \<^verbatim>\<open>contents.get\<close> requests sent and not yet answered, each with the
    promise stored in \<^verbatim>\<open>_pending\<close> for it and the \<^verbatim>\<open>newValue\<close> and \<^verbatim>\<open>oldValue\<close>
    its handlers closed over;
  \<^item> \<open>waiters\<close>: the calls of \<^verbatim>\<open>cd\<close> suspended at \<^verbatim>\<open>await this._pending\<close>, each with
    the promise it awaits and its resolved \<^verbatim>\<open>newValue\<close>;
  \<^item> \<open>adopted\<close>: \<open>(p, q)\<close> when the \<^verbatim>\<open>catch\<close> handler of \<open>p\<close> returned \<^verbatim>\<open>this.cd('/')\<close>,
    whose request is \<open>q\<close>: \<open>p\<close> settles when \<open>q\<close> does;
  \<^item> \<open>settled\<close>: the promises that have settled;
  \<^item> \<open>trace\<close>: the effects so far.
\<close>

record fb_model =
  driveName :: string
  model :: entry
  items :: "entry list"
  paths :: "string set"
  sessions :: "session list"
  pending :: "nat option"
  pendingPath :: "string option"
  key :: string
  has_state :: bool
  isDisposed :: bool
  uploads :: "upload_item list"
  running :: "session list"
  inflight :: "(nat \<times> string \<times> string) list"
  waiters :: "(nat \<times> string) list"
  adopted :: "(nat \<times> nat) list"
  settled :: "nat list"
  next_promise :: nat
  trace :: "effect list"

record togglable_model = fb_model +
  includeHiddenFiles :: bool

text \<open>
  What a caller-supplied filter may return: a boolean, \<^verbatim>\<open>null\<close> or \<^verbatim>\<open>undefined\<close>
  (\<open>FNull\<close>), or a score object with an optional \<^verbatim>\<open>indices\<close> property.
\<close>

datatype filter_result = FBool bool | FNull | FScore "nat list option"

record filter_model = togglable_model +
  filter_fn :: "entry \<Rightarrow> filter_result"

subsection \<open>Getters, construction, disposal\<close>

definition rootPath :: "'a fb_model_scheme \<Rightarrow> string" where
  "rootPath m = (if driveName m \<noteq> [] then driveName m @ '':'' else [])"

definition path :: "'a fb_model_scheme \<Rightarrow> string" where
  "path m = c_path (model m)"

text \<open>The state the constructor leaves, for a model with no drive name.\<close>

definition new_model :: "bool \<Rightarrow> fb_model" where
  "new_model st =
     \<lparr> driveName = [],
       model = \<lparr> c_name = [], c_path = [], c_type = ''directory'', c_writable = False,
                 c_created = ''unknown'', c_last_modified = ''unknown'',
                 c_mimetype = ''text/plain'', c_format = ''text'', c_indices = None \<rparr>,
       items = [], paths = {}, sessions = [], pending = None, pendingPath = None,
       key = [], has_state = st, isDisposed = False, uploads = [], running = [],
       inflight = [], waiters = [], adopted = [], settled = [], next_promise = 0,
       trace = [] \<rparr>"

definition emit :: "effect \<Rightarrow> 'a fb_model_scheme \<Rightarrow> 'a fb_model_scheme" where
  "emit e m = m\<lparr> trace := trace m @ [e] \<rparr>"

text \<open>\<^verbatim>\<open>dispose\<close>; its last statement is \<^verbatim>\<open>Signal.clearData(this)\<close>.\<close>

definition dispose :: "'a fb_model_scheme \<Rightarrow> 'a fb_model_scheme" where
  "dispose m = (if isDisposed m then m
                else emit SignalsCleared (m\<lparr> isDisposed := True, sessions := [], items := [] \<rparr>))"

subsection \<open>Listing and sessions\<close>

definition handleContents :: "contents \<Rightarrow> 'a fb_model_scheme \<Rightarrow> 'a fb_model_scheme" where
  "handleContents c m =
     m\<lparr> model := (d_entry c)\<lparr> c_indices := None \<rparr>,
        items := d_content c,
        paths := set (map c_path (d_content c)) \<rparr>"

text \<open>
  \<^verbatim>\<open>_populateSessions\<close>: the list is emptied, then every model of the snapshot whose path
  is in \<^verbatim>\<open>_paths\<close> is pushed, in the snapshot's order.
\<close>

fun push_listed :: "string set \<Rightarrow> session list \<Rightarrow> session list \<Rightarrow> session list" where
  "push_listed ps acc [] = acc"
| "push_listed ps acc (s # ss) =
     push_listed ps (if s_path s \<in> ps then acc @ [s] else acc) ss"

definition populateSessions :: "session list \<Rightarrow> 'a fb_model_scheme \<Rightarrow> 'a fb_model_scheme" where
  "populateSessions models m = m\<lparr> sessions := push_listed (paths m) [] models \<rparr>"

definition onRunningChanged :: "session list \<Rightarrow> 'a fb_model_scheme \<Rightarrow> 'a fb_model_scheme" where
  "onRunningChanged models m = emit Refreshed (populateSessions models m)"

subsection \<open>The filtered views\<close>

definition starts_with_dot :: "string \<Rightarrow> bool" where
  "starts_with_dot s = (case s of [] \<Rightarrow> False | c # _ \<Rightarrow> c = CHR ''.'')"

text \<open>\<^verbatim>\<open>TogglableHiddenFileBrowserModel.items\<close>.\<close>

definition togglable_items :: "'a togglable_model_scheme \<Rightarrow> entry list" where
  "togglable_items m =
     (if includeHiddenFiles m then items m
      else filter (\<lambda>v. \<not> starts_with_dot (c_name v)) (items m))"

definition truthy :: "filter_result \<Rightarrow> bool" where
  "truthy r = (case r of FBool b \<Rightarrow> b | FNull \<Rightarrow> False | FScore _ \<Rightarrow> True)"

text \<open>
  The callback of \<^verbatim>\<open>FilterFileBrowserModel.items\<close> on one entry: whether it is kept, and
  the entry after the callback (a result that is not a boolean overwrites
  \<^verbatim>\<open>value.indices\<close>).
\<close>

definition filter_entry :: "(entry \<Rightarrow> filter_result) \<Rightarrow> entry \<Rightarrow> bool \<times> entry" where
  "filter_entry f v =
     (if c_type v = ''directory'' then (True, v)
      else (case f v of
              FBool b \<Rightarrow> (b, v)
            | FNull \<Rightarrow> (False, v\<lparr> c_indices := None \<rparr>)
            | FScore ix \<Rightarrow> (True, v\<lparr> c_indices := ix \<rparr>)))"

text \<open>\<^verbatim>\<open>FilterFileBrowserModel.items\<close>, iterated to its end: the entries it yields.\<close>

definition filter_items :: "'a filter_model_scheme \<Rightarrow> entry list" where
  "filter_items m =
     map snd (filter fst (map (filter_entry (filter_fn m)) (togglable_items m)))"

text \<open>
  The callback writes into the entry objects, which are those of \<^verbatim>\<open>_items\<close>: the model
  after the iteration. The entries the parent class leaves out are not visited.
\<close>

definition after_filter_items :: "'a filter_model_scheme \<Rightarrow> 'a filter_model_scheme" where
  "after_filter_items m =
     m\<lparr> items :=
          map (\<lambda>v. if includeHiddenFiles m \<or> \<not> starts_with_dot (c_name v)
                    then snd (filter_entry (filter_fn m) v) else v)
            (items m) \<rparr>"

text \<open>The default filter of the constructor: \<^verbatim>\<open>model => Object.freeze({})\<close>.\<close>

definition default_filter :: "entry \<Rightarrow> filter_result" where
  "default_filter v = FScore None"

text \<open>
  The constructor of \<^verbatim>\<open>FilterFileBrowserModel\<close> on top of a base model:
  \<^verbatim>\<open>options.includeHiddenFiles || false\<close> and \<^verbatim>\<open>options.filter\<close> or the default.
\<close>

definition new_filter_model ::
  "fb_model \<Rightarrow> bool option \<Rightarrow> (entry \<Rightarrow> filter_result) option \<Rightarrow> filter_model" where
  "new_filter_model base hidden f =
     togglable_model.extend
       (fb_model.extend base
          (togglable_model.fields (case hidden of None \<Rightarrow> False | Some b \<Rightarrow> b)))
       (filter_model.fields (case f of None \<Rightarrow> default_filter | Some g \<Rightarrow> g))"

subsection \<open>Navigation\<close>

text \<open>
  \<^verbatim>\<open>cd\<close> is an \<^verbatim>\<open>async\<close> method: it runs up to \<^verbatim>\<open>await this._pending\<close>, is suspended
  there until that promise settles, and the handlers of the request it sends run when the
  content service answers. The embedding follows these pieces. \<open>rp\<close> is
  \<^verbatim>\<open>services.contents.resolvePath\<close>, a function of the content service.
\<close>

datatype cd_result = Joined nat | Waiting nat | Issued nat

text \<open>Lines 208-214: the resolved \<^verbatim>\<open>newValue\<close>. The empty string is falsy for \<^verbatim>\<open>||\<close>.\<close>

definition cd_target :: "(string \<Rightarrow> string \<Rightarrow> string) \<Rightarrow> string \<Rightarrow> fb_model \<Rightarrow> string" where
  "cd_target rp newValue m =
     (if newValue \<noteq> ''.'' then rp (c_path (model m)) newValue
      else (case pendingPath m of
              None \<Rightarrow> c_path (model m)
            | Some pp \<Rightarrow> if pp = [] then c_path (model m) else pp))"

text \<open>Lines 223-231 and 269: the request is sent and its promise stored.\<close>

definition cd_issue :: "string \<Rightarrow> fb_model \<Rightarrow> fb_model" where
  "cd_issue newValue m =
     (let oldValue = path m;
          m1 = m\<lparr> pendingPath := Some newValue \<rparr>;
          m2 = (if oldValue \<noteq> newValue then m1\<lparr> sessions := [] \<rparr> else m1);
          p = next_promise m2
      in (emit (ContentsGet newValue) m2)
           \<lparr> pending := Some p,
             inflight := inflight m2 @ [(p, newValue, oldValue)],
             next_promise := Suc p \<rparr>)"

text \<open>
  A call of \<^verbatim>\<open>cd\<close> up to its first suspension: it returns the pending promise, is
  suspended on it, or sends its request at once.
\<close>

definition cd :: "(string \<Rightarrow> string \<Rightarrow> string) \<Rightarrow> string \<Rightarrow> fb_model \<Rightarrow> cd_result \<times> fb_model" where
  "cd rp target m =
     (let newValue = cd_target rp target m in
      case pending m of
        Some p \<Rightarrow>
          if pendingPath m = Some newValue then (Joined p, m)
          else (Waiting p, m\<lparr> waiters := waiters m @ [(p, newValue)] \<rparr>)
      | None \<Rightarrow> (Issued (next_promise m), cd_issue newValue m))"

text \<open>Lines 232-253: the \<^verbatim>\<open>then\<close> handler.\<close>

definition on_fulfilled :: "string \<Rightarrow> string \<Rightarrow> contents \<Rightarrow> fb_model \<Rightarrow> fb_model" where
  "on_fulfilled newValue oldValue c m =
     (if isDisposed m then m
      else let m1 = (handleContents c m)\<lparr> pendingPath := None, pending := None \<rparr>;
               m2 = (if oldValue \<noteq> newValue
                     then emit (PathChanged oldValue newValue)
                            (if has_state m1 \<and> key m1 \<noteq> []
                             then emit (StateSave (key m1) newValue) m1 else m1)
                     else m1)
           in emit Refreshed (onRunningChanged (running m2) m2))"

definition not_found :: "error \<Rightarrow> string \<Rightarrow> bool" where
  "not_found err newValue = (response_status err = Some 404 \<and> newValue \<noteq> ''/'')"

text \<open>
  Lines 254-268: the \<^verbatim>\<open>catch\<close> handler of promise \<open>p\<close>. In the not-found branch it returns
  \<^verbatim>\<open>this.cd('/')\<close>, so \<open>p\<close> adopts the promise of that call.
\<close>

definition on_rejected ::
  "(string \<Rightarrow> string \<Rightarrow> string) \<Rightarrow> nat \<Rightarrow> string \<Rightarrow> error \<Rightarrow> fb_model \<Rightarrow> fb_model" where
  "on_rejected rp p newValue err m =
     (let m1 = m\<lparr> pendingPath := None, pending := None \<rparr> in
      if not_found err newValue
      then (let err' = err\<lparr> message := ''Directory not found: '' @ [CHR 0x22] @ path m1 @ [CHR 0x22] \<rparr>;
                m2 = emit (ConnectionFailure err') m1
            in case cd rp ''/'' m2 of
                 (Issued q, m3) \<Rightarrow> m3\<lparr> adopted := adopted m3 @ [(p, q)] \<rparr>
               | (Joined q, m3) \<Rightarrow> m3\<lparr> adopted := adopted m3 @ [(p, q)] \<rparr>
               | (Waiting q, m3) \<Rightarrow> m3)
      else emit (ConnectionFailure err) m1)"

text \<open>
  When a promise settles, the calls suspended on it resume in the order they were
  suspended, each running lines 223-269 to the end; then the promise that adopted it
  settles, and so on. \<open>settle_chain\<close> reads \<open>adopted\<close> from its newest pair.
\<close>

fun settle_chain :: "nat \<Rightarrow> (nat \<times> nat) list \<Rightarrow> nat list" where
  "settle_chain q [] = [q]"
| "settle_chain q ((p', q') # rest) =
     (if q' = q then q # settle_chain p' rest else settle_chain q rest)"

definition resume :: "nat \<Rightarrow> fb_model \<Rightarrow> fb_model" where
  "resume p m =
     fold (\<lambda>w. cd_issue (snd w)) (filter (\<lambda>w. fst w = p) (waiters m))
       (m\<lparr> waiters := filter (\<lambda>w. fst w \<noteq> p) (waiters m) \<rparr>)"

definition settle :: "nat \<Rightarrow> fb_model \<Rightarrow> fb_model" where
  "settle p m = resume p (m\<lparr> settled := settled m @ [p] \<rparr>)"

definition settle_all :: "nat \<Rightarrow> fb_model \<Rightarrow> fb_model" where
  "settle_all p m = fold settle (settle_chain p (rev (adopted m))) m"

text \<open>
  What can happen to a model: a call of \<^verbatim>\<open>cd\<close>, the answer of the content service to the
  request of a promise, a turn of the microtask queue (a call suspended on a promise that
  had already settled resumes), a change of the running sessions, \<^verbatim>\<open>dispose()\<close>.
\<close>

datatype event =
    Cd string
  | Answer nat "error + contents"
  | Tick
  | RunningChanged "session list"
  | Dispose

definition answer ::
  "(string \<Rightarrow> string \<Rightarrow> string) \<Rightarrow> nat \<Rightarrow> error + contents \<Rightarrow> fb_model \<Rightarrow> fb_model" where
  "answer rp p r m =
     (case find (\<lambda>x. fst x = p) (inflight m) of
        None \<Rightarrow> m
      | Some (_, newValue, oldValue) \<Rightarrow>
          (let m0 = m\<lparr> inflight := filter (\<lambda>x. fst x \<noteq> p) (inflight m) \<rparr> in
           case r of
             Inr c \<Rightarrow> settle_all p (on_fulfilled newValue oldValue c m0)
           | Inl err \<Rightarrow>
               if not_found err newValue then on_rejected rp p newValue err m0
               else settle_all p (on_rejected rp p newValue err m0)))"

definition step :: "(string \<Rightarrow> string \<Rightarrow> string) \<Rightarrow> event \<Rightarrow> fb_model \<Rightarrow> fb_model" where
  "step rp ev m =
     (case ev of
        Cd target \<Rightarrow> snd (cd rp target m)
      | Answer p r \<Rightarrow> answer rp p r m
      | Tick \<Rightarrow> fold resume (settled m) m
      | RunningChanged models \<Rightarrow>
          (if isDisposed m then m\<lparr> running := models \<rparr>
           else onRunningChanged models (m\<lparr> running := models \<rparr>))
      | Dispose \<Rightarrow> dispose m)"

definition run :: "(string \<Rightarrow> string \<Rightarrow> string) \<Rightarrow> event list \<Rightarrow> fb_model \<Rightarrow> fb_model" where
  "run rp evs m = fold (step rp) evs m"

text \<open>
  Modelled from the spec: \<^verbatim>\<open>resolvePath\<close> of the content service, which is not part of
  this repository. The specification says that a target is resolved against the current
  path, that a target with a leading \<^verbatim>\<open>/\<close> is not relative, and that \<^verbatim>\<open>..\<close> ascends
  (\<^verbatim>\<open>..\<close> from \<^verbatim>\<open>a/b/c\<close> is \<^verbatim>\<open>a/b\<close>); paths carry no leading slash, the root being the
  empty path, as \<^verbatim>\<open>rootPath\<close> has it. Drive names are left out.
\<close>

fun split_slash :: "string \<Rightarrow> string \<Rightarrow> string list" where
  "split_slash acc [] = [acc]"
| "split_slash acc (c # cs) =
     (if c = CHR ''/'' then acc # split_slash [] cs else split_slash (acc @ [c]) cs)"

fun normalize :: "string list \<Rightarrow> string list \<Rightarrow> string list" where
  "normalize acc [] = acc"
| "normalize acc (s # ss) =
     (if s = [] \<or> s = ''.'' then normalize acc ss
      else if s = ''..'' then normalize (butlast acc) ss
      else normalize (acc @ [s]) ss)"

fun join_slash :: "string list \<Rightarrow> string" where
  "join_slash [] = []"
| "join_slash [s] = s"
| "join_slash (s # t # ss) = s @ ''/'' @ join_slash (t # ss)"

definition resolvePath :: "string \<Rightarrow> string \<Rightarrow> string" where
  "resolvePath cur target =
     join_slash (normalize []
       ((if target \<noteq> [] \<and> hd target = CHR ''/'' then [] else split_slash [] cur)
        @ split_slash [] target))"

subsection \<open>Restoration\<close>

text \<open>
  What \<^verbatim>\<open>restore\<close> meets at its suspension points: the answer of \<^verbatim>\<open>state.fetch\<close>
  (a failure, no value, or a value with its \<^verbatim>\<open>path\<close> property, \<open>None\<close> when that is
  missing), what \<^verbatim>\<open>contents.localPath\<close> makes of the path (\<open>None\<close> when it throws), and
  whether \<^verbatim>\<open>contents.get(path)\<close> succeeds. A call of \<^verbatim>\<open>this.cd\<close> is recorded as the effect
  \<open>CdCall\<close>; \<^verbatim>\<open>cd\<close> handles its own failures, so the awaited call returns.
\<close>

datatype fetched = FetchFails | NoValue | Value "string option"

record restore_env =
  fetch_answer :: fetched
  localPath :: "string option \<Rightarrow> string option"
  get_ok :: bool

definition restore_key :: "string \<Rightarrow> string" where
  "restore_key ident = ''file-browser-'' @ ident @ '':cwd''"

definition restore_body :: "restore_env \<Rightarrow> string \<Rightarrow> fb_model \<Rightarrow> fb_model" where
  "restore_body env k m =
     (let m1 = emit (StateFetch k) m in
      case fetch_answer env of
        FetchFails \<Rightarrow> emit RestoredResolve (emit (StateRemove k) m1)
      | NoValue \<Rightarrow> emit RestoredResolve m1
      | Value p \<Rightarrow>
          (let m2 = (if p \<noteq> None \<and> p \<noteq> Some [] then emit (CdCall ''/'') m1 else m1) in
           case localPath env p of
             None \<Rightarrow> emit RestoredResolve (emit (StateRemove k) m2)
           | Some lp \<Rightarrow>
               (let m3 = emit (ContentsGetPlain p) m2 in
                if get_ok env then emit RestoredResolve (emit (CdCall lp) m3)
                else emit RestoredResolve (emit (StateRemove k) m3))))"

definition restore :: "restore_env \<Rightarrow> string \<Rightarrow> bool \<Rightarrow> fb_model \<Rightarrow> fb_model" where
  "restore env ident populate m =
     (if key m \<noteq> [] then m
      else (let m1 = m\<lparr> key := restore_key ident \<rparr> in
            if \<not> populate \<or> \<not> has_state m then emit RestoredResolve m1
            else restore_body env (restore_key ident) m1))"

subsection \<open>Uploads\<close>

definition LARGE_FILE_SIZE :: nat where
  "LARGE_FILE_SIZE = 15 * 1024 * 1024"

definition CHUNK_SIZE :: nat where
  "CHUNK_SIZE = 1024 * 1024"

text \<open>
  \<^verbatim>\<open>Array.prototype.indexOf\<close> (\<open>-1\<close> when absent), \<^verbatim>\<open>splice(start)\<close> with its single
  argument (everything from \<open>start\<close> on is removed; a negative \<open>start\<close> counts from the
  end) and \<^verbatim>\<open>ArrayExt.removeFirstWhere\<close>.
\<close>

fun indexOf :: "'a list \<Rightarrow> 'a \<Rightarrow> int" where
  "indexOf [] x = -1"
| "indexOf (y # ys) x =
     (if y = x then 0 else (let i = indexOf ys x in if i < 0 then -1 else i + 1))"

definition splice :: "int \<Rightarrow> 'a list \<Rightarrow> 'a list" where
  "splice start xs =
     (let n = int (length xs);
          s = (if start < 0 then max (n + start) 0 else min start n)
      in take (nat s) xs)"

fun removeFirstWhere :: "('a \<Rightarrow> bool) \<Rightarrow> 'a list \<Rightarrow> 'a list" where
  "removeFirstWhere P [] = []"
| "removeFirstWhere P (x # xs) = (if P x then xs else x # removeFirstWhere P xs)"

text \<open>
  An object literal allocates a new object, distinct from every object reachable so far:
  its address is above the addresses of the objects the caller names.
\<close>

definition new_address :: "upload_item list \<Rightarrow> nat" where
  "new_address us = Suc (fold max (map u_id us) 0)"

datatype upload_error =
    Disposed | ReadFailed | SaveFailed error | TooLarge | CancelledLarge | RefreshFailed
  | NotUploaded

definition uploadCheckDisposed :: "'a fb_model_scheme \<Rightarrow> bool" where
  "uploadCheckDisposed m = (\<not> isDisposed m)"

text \<open>
  What one call of \<^verbatim>\<open>uploadInner\<close> meets at its two real suspension points: whether the
  \<^verbatim>\<open>FileReader\<close> loads the blob, what \<^verbatim>\<open>contents.save\<close> answers, and whether
  \<^verbatim>\<open>dispose()\<close> is called on the model while the read, or the save, is pending.
\<close>

record piece_env =
  read_ok :: bool
  dispose_in_read :: bool
  save_answer :: "error + entry"
  dispose_in_save :: bool

definition uploadInner ::
  "piece_env \<Rightarrow> string \<Rightarrow> int option \<Rightarrow> fb_model \<Rightarrow> (upload_error + entry) \<times> fb_model" where
  "uploadInner env pth chunk m =
     (if \<not> uploadCheckDisposed m then (Inl Disposed, m)
      else let m1 = (if dispose_in_read env then dispose m else m) in
        if \<not> read_ok env then (Inl ReadFailed, m1)
        else if \<not> uploadCheckDisposed m1 then (Inl Disposed, m1)
        else let m2 = emit (ContentsSave pth chunk) m1;
                 m3 = (if dispose_in_save env then dispose m2 else m2)
             in (case save_answer env of
                   Inl e \<Rightarrow> (Inl (SaveFailed e), m3)
                 | Inr r \<Rightarrow> (Inr r, m3)))"

definition upload_path :: "fb_model \<Rightarrow> upload_file \<Rightarrow> string" where
  "upload_path m f = (if path m \<noteq> [] then path m @ ''/'' @ f_name f else f_name f)"

text \<open>
  The loop of \<^verbatim>\<open>_upload\<close>, one call per iteration. \<open>env k\<close> is what piece number \<open>k\<close>
  meets. The loop of the source ends when \<^verbatim>\<open>finalModel\<close> is set, which the last chunk's
  answer (an object) does. \<open>start\<close> runs through the multiples of \<^verbatim>\<open>CHUNK_SIZE\<close>, so
  \<^verbatim>\<open>end / CHUNK_SIZE\<close> is a whole number.
\<close>

function chunk_loop ::
  "(nat \<Rightarrow> piece_env) \<Rightarrow> upload_file \<Rightarrow> string \<Rightarrow> nat \<Rightarrow> upload_item \<Rightarrow> fb_model
     \<Rightarrow> (upload_error + entry) \<times> fb_model" where
  "chunk_loop env f pth start upload m =
     (let end = start + CHUNK_SIZE;
          lastChunk = (end \<ge> f_size f);
          chunk = (if lastChunk then -1 else int (end div CHUNK_SIZE));
          newUpload = \<lparr> u_id = new_address (upload # uploads m), u_path = pth,
                        u_progress = of_nat start / of_nat (f_size f) \<rparr>;
          m1 = m\<lparr> uploads := splice (indexOf (uploads m) upload) (uploads m) @ [newUpload] \<rparr>;
          m2 = emit (UploadChanged UUpdate (Some newUpload) (Some upload)) m1
      in case uploadInner (env (start div CHUNK_SIZE)) pth (Some chunk) m2 of
           (Inl err, m3) \<Rightarrow>
             (Inl err,
              emit (UploadChanged UFailure (Some newUpload) None)
                (m3\<lparr> uploads := removeFirstWhere (\<lambda>u. f_name f = u_path u) (uploads m3) \<rparr>))
         | (Inr r, m3) \<Rightarrow>
             if lastChunk
             then (Inr r,
                   emit (UploadChanged UFinish None (Some newUpload))
                     (m3\<lparr> uploads := splice (indexOf (uploads m3) newUpload) (uploads m3) \<rparr>))
             else chunk_loop env f pth (start + CHUNK_SIZE) newUpload m3)"
  by pat_completeness auto
termination
  by (relation "measure (\<lambda>(env, f, pth, start, upload, m). f_size f - start)")
     (auto simp: CHUNK_SIZE_def)

text \<open>\<^verbatim>\<open>_upload\<close>.\<close>

definition p_upload ::
  "(nat \<Rightarrow> piece_env) \<Rightarrow> upload_file \<Rightarrow> bool \<Rightarrow> fb_model \<Rightarrow> (upload_error + entry) \<times> fb_model" where
  "p_upload env f chunked m =
     (let pth = upload_path m f in
      if \<not> chunked then
        (case uploadInner (env 0) pth None m of
           (Inl err, m1) \<Rightarrow>
             (Inl err, m1\<lparr> uploads := removeFirstWhere (\<lambda>u. f_name f = u_path u) (uploads m1) \<rparr>)
         | (Inr r, m1) \<Rightarrow> (Inr r, m1))
      else
        (let upload = \<lparr> u_id = new_address (uploads m), u_path = pth, u_progress = 0 \<rparr>;
             m1 = emit (UploadChanged UStart (Some upload) None) m
         in chunk_loop env f pth 0 upload m1))"

text \<open>
  \<^verbatim>\<open>refresh\<close> awaits the poll and then emits \<^verbatim>\<open>refreshed\<close>. The poll is not part of this
  repository: \<open>poll\<close> is what has become of the model when the awaited promises settle,
  \<open>ok\<close> whether the poll fulfils them. \<^verbatim>\<open>dispose\<close> disposes of the poll with the model
  (line 172), and the promises of a disposed poll are rejected: the refresh of a model
  that has been disposed of meanwhile is rejected whatever \<open>ok\<close> says, and \<^verbatim>\<open>refreshed\<close> is
  not emitted.
\<close>

definition refresh :: "(fb_model \<Rightarrow> fb_model) \<Rightarrow> bool \<Rightarrow> fb_model \<Rightarrow> bool \<times> fb_model" where
  "refresh poll ok m =
     (let m1 = poll m in
      if ok \<and> \<not> isDisposed m1 then (True, emit Refreshed m1) else (False, m1))"

text \<open>
  What \<^verbatim>\<open>upload\<close> meets before the transfer: whether the server takes chunks (computed
  from \<^verbatim>\<open>PageConfig.getNotebookVersion()\<close>), the answers of the two dialogs, whether
  \<^verbatim>\<open>dispose()\<close> is called while a dialog is open, and the poll.
\<close>

record upload_env =
  supportsChunked :: bool
  accept_large :: bool
  dispose_in_large :: bool
  poll :: "fb_model \<Rightarrow> fb_model"
  refresh_ok :: bool
  overwrite :: bool
  dispose_in_overwrite :: bool
  piece :: "nat \<Rightarrow> piece_env"

text \<open>\<^verbatim>\<open>upload\<close>.\<close>

definition upload ::
  "upload_env \<Rightarrow> upload_file \<Rightarrow> fb_model \<Rightarrow> (upload_error + entry) \<times> fb_model" where
  "upload env f m =
     (let largeFile = (f_size f > LARGE_FILE_SIZE) in
      if largeFile \<and> \<not> supportsChunked env then (Inl TooLarge, m)
      else let m1 = (if largeFile \<and> dispose_in_large env then dispose m else m) in
        if largeFile \<and> \<not> accept_large env then (Inl CancelledLarge, m1)
        else if \<not> uploadCheckDisposed m1 then (Inl Disposed, m1)
        else (case refresh (poll env) (refresh_ok env) m1 of
                (False, m2) \<Rightarrow> (Inl RefreshFailed, m2)
              | (True, m2) \<Rightarrow>
                  if \<not> uploadCheckDisposed m2 then (Inl Disposed, m2)
                  else let found = (find (\<lambda>i. c_name i = f_name f) (items m2) \<noteq> None);
                           m3 = (if found \<and> dispose_in_overwrite env then dispose m2 else m2)
                       in if found \<and> \<not> overwrite env then (Inl NotUploaded, m3)
                          else if \<not> uploadCheckDisposed m3 then (Inl Disposed, m3)
                          else p_upload (piece env) f
                                 (supportsChunked env \<and> f_size f > CHUNK_SIZE) m3))"

subsection \<open>Vocabulary of the statements\<close>

text \<open>
  A piece whose read and save both succeed while nobody disposes of the model, the number
  of pieces of a file, and the chunk index the loop sends with piece \<open>j\<close> (the last piece
  carries \<open>-1\<close>).
\<close>

definition ok_piece :: "piece_env \<Rightarrow> bool" where
  "ok_piece pe = (read_ok pe \<and> \<not> dispose_in_read pe \<and> \<not> dispose_in_save pe
                  \<and> (case save_answer pe of Inl _ \<Rightarrow> False | Inr _ \<Rightarrow> True))"

definition pieces :: "upload_file \<Rightarrow> nat" where
  "pieces f = (f_size f + CHUNK_SIZE - 1) div CHUNK_SIZE"

definition chunk_no :: "upload_file \<Rightarrow> nat \<Rightarrow> int" where
  "chunk_no f j = (if Suc j < pieces f then int (Suc j) else -1)"

text \<open>
  The objects a chunked upload allocates when the first of them gets address \<open>a\<close>: the
  object of the \<^verbatim>\<open>start\<close> event, and the object of the update before piece \<open>j\<close>.
\<close>

definition start_item :: "nat \<Rightarrow> string \<Rightarrow> upload_item" where
  "start_item a pth = \<lparr> u_id = a, u_path = pth, u_progress = 0 \<rparr>"

definition piece_item :: "nat \<Rightarrow> string \<Rightarrow> upload_file \<Rightarrow> nat \<Rightarrow> upload_item" where
  "piece_item a pth f j =
     \<lparr> u_id = Suc (a + j), u_path = pth,
       u_progress = of_nat (j * CHUNK_SIZE) / of_nat (f_size f) \<rparr>"

definition prev_item :: "nat \<Rightarrow> string \<Rightarrow> upload_file \<Rightarrow> nat \<Rightarrow> upload_item" where
  "prev_item a pth f j = (case j of 0 \<Rightarrow> start_item a pth | Suc i \<Rightarrow> piece_item a pth f i)"

definition piece_events :: "nat \<Rightarrow> string \<Rightarrow> upload_file \<Rightarrow> nat \<Rightarrow> effect list" where
  "piece_events a pth f j =
     [UploadChanged UUpdate (Some (piece_item a pth f j)) (Some (prev_item a pth f j)),
      ContentsSave pth (Some (chunk_no f j))]"

text \<open>The object the loop allocates at the top of an iteration.\<close>

definition next_item :: "upload_item \<Rightarrow> string \<Rightarrow> upload_file \<Rightarrow> nat \<Rightarrow> upload_item list \<Rightarrow> upload_item" where
  "next_item cur pth f start us =
     \<lparr> u_id = new_address (cur # us), u_path = pth,
       u_progress = of_nat start / of_nat (f_size f) \<rparr>"

definition is_update :: "effect \<Rightarrow> bool" where
  "is_update e = (case e of UploadChanged UUpdate _ _ \<Rightarrow> True | _ \<Rightarrow> False)"

definition is_save :: "effect \<Rightarrow> bool" where
  "is_save e = (case e of ContentsSave _ _ \<Rightarrow> True | _ \<Rightarrow> False)"

text \<open>
  The order the specification gives to the events of a chunked upload, read on a trace:
  an \<^verbatim>\<open>update\<close> is emitted after a piece has been saved, so every \<^verbatim>\<open>update\<close> stands
  directly behind a save.
\<close>

definition update_after_piece :: "effect list \<Rightarrow> bool" where
  "update_after_piece tr =
     list_all (\<lambda>(before, e). \<not> is_update e \<or> (case before of None \<Rightarrow> False | Some b \<Rightarrow> is_save b))
       (zip (None # map Some tr) tr)"

text \<open>
  Modelled from the spec: \<^verbatim>\<open>Signal.clearData\<close> of the signalling library, which is not part
  of this repository. The specification has the signals as publish/subscribe channels with
  synchronous, ordered delivery at emit time, and a teardown that clears all subscriptions
  at once. So an \<^verbatim>\<open>emit\<close> called behind \<^verbatim>\<open>Signal.clearData(this)\<close> finds no slot connected:
  a slot connected to the signals of the model before its disposal has received the
  signals emitted in front of \<open>SignalsCleared\<close>, in their order, and none of those behind.
\<close>

definition is_signal :: "effect \<Rightarrow> bool" where
  "is_signal e =
     (case e of
        PathChanged _ _ \<Rightarrow> True
      | Refreshed \<Rightarrow> True
      | ConnectionFailure _ \<Rightarrow> True
      | UploadChanged _ _ _ \<Rightarrow> True
      | _ \<Rightarrow> False)"

definition received :: "effect list \<Rightarrow> effect list" where
  "received tr = filter is_signal (takeWhile (\<lambda>e. e \<noteq> SignalsCleared) tr)"

text \<open>The requests to \<^verbatim>\<open>contents.save\<close> that a trace holds behind a disposal.\<close>

definition saves_behind_disposal :: "effect list \<Rightarrow> effect list" where
  "saves_behind_disposal tr = filter is_save (dropWhile (\<lambda>e. e \<noteq> SignalsCleared) tr)"

text \<open>
  The flag \<^verbatim>\<open>_isDisposed\<close> and the trace agree: the flag is set exactly when
  \<^verbatim>\<open>Signal.clearData(this)\<close> has run.
\<close>

definition coherent :: "'a fb_model_scheme \<Rightarrow> bool" where
  "coherent m = (isDisposed m = (SignalsCleared \<in> set (trace m)))"

text \<open>
  What the calls resumed by a settled promise do to a model, at most: they send their
  requests, and a request for another path empties the session list. The cached entries,
  the current directory and the listed paths stay.
\<close>

definition is_get :: "effect \<Rightarrow> bool" where
  "is_get e = (case e of ContentsGet _ \<Rightarrow> True | _ \<Rightarrow> False)"

definition only_fetches :: "fb_model \<Rightarrow> fb_model \<Rightarrow> bool" where
  "only_fetches m m' =
     (items m' = items m \<and> model m' = model m \<and> paths m' = paths m
      \<and> (sessions m' = sessions m \<or> sessions m' = [])
      \<and> take (length (trace m)) (trace m') = trace m
      \<and> list_all is_get (drop (length (trace m)) (trace m')))"

text \<open>Promise identifiers are handed out in order: none in use is above the counter.\<close>

definition ids_below :: "fb_model \<Rightarrow> bool" where
  "ids_below m =
     ((\<forall>x\<in>set (inflight m). fst x < next_promise m)
      \<and> (\<forall>w\<in>set (waiters m). fst w < next_promise m)
      \<and> (\<forall>pq\<in>set (adopted m). snd pq < next_promise m))"

text \<open>The same with the pending promise, which is one of those handed out.\<close>

definition ordered :: "fb_model \<Rightarrow> bool" where
  "ordered m = (ids_below m \<and> (\<forall>p. pending m = Some p \<longrightarrow> p < next_promise m))"

text \<open>Concrete inputs: a directory listing, an error with a status, a steady environment.\<close>

definition listing :: "string \<Rightarrow> entry list \<Rightarrow> contents" where
  "listing p es =
     \<lparr> d_entry = \<lparr> c_name = p, c_path = p, c_type = ''directory'', c_writable = True,
                   c_created = [], c_last_modified = [], c_mimetype = [], c_format = ''json'',
                   c_indices = None \<rparr>,
       d_content = es \<rparr>"

definition plain_file :: "string \<Rightarrow> string \<Rightarrow> entry" where
  "plain_file n p =
     \<lparr> c_name = n, c_path = p, c_type = ''file'', c_writable = True, c_created = [],
       c_last_modified = [], c_mimetype = [], c_format = ''text'', c_indices = None \<rparr>"

definition http_error :: "nat \<Rightarrow> error" where
  "http_error status = \<lparr> response_status = Some status, message = [] \<rparr>"

definition steady :: "error + entry \<Rightarrow> nat \<Rightarrow> piece_env" where
  "steady reply k =
     \<lparr> read_ok = True, dispose_in_read = False, save_answer = reply, dispose_in_save = False \<rparr>"

text \<open>
  An \<^verbatim>\<open>upload\<close> environment in which nothing goes wrong: the server takes chunks, the
  dialogs are accepted, the poll leaves the model as it is.
\<close>

definition calm :: "entry \<Rightarrow> upload_env" where
  "calm e =
     \<lparr> supportsChunked = True, accept_large = True, dispose_in_large = False,
       poll = (\<lambda>m. m), refresh_ok = True, overwrite = True, dispose_in_overwrite = False,
       piece = steady (Inr e) \<rparr>"

section \<open>Session reconciliation\<close>

lemma push_listed_filter:
  "push_listed ps acc ss = acc @ filter (\<lambda>s. s_path s \<in> ps) ss"
  by (induction ss arbitrary: acc) simp_all

text \<open>
  Claim C6. \<^verbatim>\<open>_populateSessions\<close> keeps exactly the sessions of the snapshot whose path is
  in \<^verbatim>\<open>_paths\<close>, in the snapshot's order, and \<^verbatim>\<open>handleContents\<close> makes \<^verbatim>\<open>_paths\<close> the
  paths of the listing. With the entries \<^verbatim>\<open>a/x.ipynb\<close> and \<^verbatim>\<open>a/y.txt\<close> listed and the
  sessions of \<^verbatim>\<open>a/x.ipynb\<close> and \<^verbatim>\<open>a/z.ipynb\<close> running, only the first session is kept.
\<close>

theorem reconciliation_retains_listed:
  "sessions (populateSessions models m) = filter (\<lambda>s. s_path s \<in> paths m) models
   \<and> paths (handleContents c m) = set (map c_path (d_content c))
   \<and> sessions (populateSessions
         [\<lparr> s_id = i, s_path = ''a/x.ipynb'' \<rparr>, \<lparr> s_id = j, s_path = ''a/z.ipynb'' \<rparr>]
         (handleContents
            (c\<lparr> d_content := [e1\<lparr> c_path := ''a/x.ipynb'' \<rparr>, e2\<lparr> c_path := ''a/y.txt'' \<rparr>] \<rparr>) m))
       = [\<lparr> s_id = i, s_path = ''a/x.ipynb'' \<rparr>]"
  by (simp add: populateSessions_def push_listed_filter handleContents_def)

theorem reconciliation_retains_listed_witness:
  "sessions (populateSessions
      [\<lparr> s_id = ''1'', s_path = ''a/x.ipynb'' \<rparr>, \<lparr> s_id = ''2'', s_path = ''a/z.ipynb'' \<rparr>]
      (handleContents
         (listing ''a'' [plain_file ''x.ipynb'' ''a/x.ipynb'', plain_file ''y.txt'' ''a/y.txt''])
         (new_model False)))
   = [\<lparr> s_id = ''1'', s_path = ''a/x.ipynb'' \<rparr>]"
  using reconciliation_retains_listed
    [of "[\<lparr> s_id = ''1'', s_path = ''a/x.ipynb'' \<rparr>, \<lparr> s_id = ''2'', s_path = ''a/z.ipynb'' \<rparr>]"
        "handleContents
           (listing ''a'' [plain_file ''x.ipynb'' ''a/x.ipynb'', plain_file ''y.txt'' ''a/y.txt''])
           (new_model False)"]
  by (simp add: handleContents_def listing_def plain_file_def)

section \<open>Restoration\<close>

lemma key_emit: "key (emit e m) = key m"
  by (simp add: emit_def)

lemma key_restore_body: "key (restore_body env k m) = key m"
  by (simp add: restore_body_def Let_def key_emit split: fetched.splits option.splits)

lemma restore_key_nonempty: "restore_key ident \<noteq> []"
  by (simp add: restore_key_def)

lemma key_restore: "key (restore env ident populate m) \<noteq> []"
  by (simp add: restore_def Let_def key_emit key_restore_body restore_key_nonempty)

text \<open>
  Claim C9. \<^verbatim>\<open>restore\<close> is idempotent. On a model whose key is set, a call returns the
  model as it is: nothing is added to the trace, so the state store is not asked and
  \<^verbatim>\<open>cd\<close> is not called, whatever the arguments. Every call leaves the key set (the key
  is written before the first suspension), so a call after a first call is such a call.
\<close>

theorem restore_idempotent:
  "(key m \<noteq> [] \<longrightarrow> restore env ident populate m = m)
   \<and> key (restore env1 ident1 populate1 m) \<noteq> []
   \<and> restore env2 ident2 populate2 (restore env1 ident1 populate1 m)
       = restore env1 ident1 populate1 m"
proof (intro conjI)
  show "key m \<noteq> [] \<longrightarrow> restore env ident populate m = m"
    by (simp add: restore_def)
  show k: "key (restore env1 ident1 populate1 m) \<noteq> []"
    by (rule key_restore)
  then show "restore env2 ident2 populate2 (restore env1 ident1 populate1 m)
       = restore env1 ident1 populate1 m"
    by (simp add: restore_def)
qed

theorem restore_idempotent_witness:
  "(let env = \<lparr> fetch_answer = Value (Some ''a/b''), localPath = (\<lambda>p. p), get_ok = True \<rparr>;
        m1 = restore env ''browser'' True (new_model True)
    in key m1 = ''file-browser-browser:cwd''
       \<and> trace m1 = [StateFetch ''file-browser-browser:cwd'', CdCall ''/'',
                      ContentsGetPlain (Some ''a/b''), CdCall ''a/b'', RestoredResolve]
       \<and> restore env ''other'' True m1 = m1)"
  using restore_idempotent
    [of "restore \<lparr> fetch_answer = Value (Some ''a/b''), localPath = (\<lambda>p. p), get_ok = True \<rparr>
           ''browser'' True (new_model True)"
        "\<lparr> fetch_answer = Value (Some ''a/b''), localPath = (\<lambda>p. p), get_ok = True \<rparr>"
        "''other''" True]
  by (simp add: restore_def restore_body_def restore_key_def new_model_def emit_def Let_def)

section \<open>The filtered view\<close>

lemma filter_entry_keep:
  "fst (filter_entry f v) = (c_type v = ''directory'' \<or> truthy (f v))"
  by (simp add: filter_entry_def truthy_def split: filter_result.splits)

lemma filter_entry_directory: "c_type v = ''directory'' \<Longrightarrow> filter_entry f v = (True, v)"
  by (simp add: filter_entry_def)

lemma filter_items_char:
  "filter_items m =
     map (\<lambda>v. snd (filter_entry (filter_fn m) v))
       (filter (\<lambda>v. c_type v = ''directory'' \<or> truthy (filter_fn m v)) (togglable_items m))"
  by (simp add: filter_items_def filter_map o_def filter_entry_keep)

text \<open>
  The same view on the cached listing \<^verbatim>\<open>_items\<close>: the parent class leaves out the entries
  whose name starts with a dot unless \<^verbatim>\<open>_includeHiddenFiles\<close> is set.
\<close>

lemma filter_items_of_items:
  "filter_items m =
     map (\<lambda>v. snd (filter_entry (filter_fn m) v))
       (filter (\<lambda>v. (includeHiddenFiles m \<or> \<not> starts_with_dot (c_name v))
                    \<and> (c_type v = ''directory'' \<or> truthy (filter_fn m v)))
          (items m))"
  by (simp add: filter_items_char togglable_items_def)

text \<open>
  Claim C10. \<^verbatim>\<open>FilterFileBrowserModel.items\<close> filters the listing that the parent class's
  \<^verbatim>\<open>items\<close> yields. The callback keeps an entry of type \<^verbatim>\<open>directory\<close> as it is, without
  calling the filter (the result is the same for every filter); it keeps another entry
  exactly when the filter's result is truthy. So the view yields, in order, the entries
  of the underlying listing that are directories or that the filter accepts, and every
  directory of the underlying listing is among them.
\<close>

theorem filter_items_directories:
  "(c_type v = ''directory'' \<longrightarrow> filter_entry f v = (True, v) \<and> filter_entry f v = filter_entry g v)
   \<and> (c_type w \<noteq> ''directory'' \<longrightarrow> fst (filter_entry f w) = truthy (f w))
   \<and> filter_items m =
        map (\<lambda>v. snd (filter_entry (filter_fn m) v))
          (filter (\<lambda>v. c_type v = ''directory'' \<or> truthy (filter_fn m v)) (togglable_items m))
   \<and> (\<forall>u\<in>set (togglable_items m). c_type u = ''directory'' \<longrightarrow> u \<in> set (filter_items m))"
proof (intro conjI)
  show "c_type v = ''directory'' \<longrightarrow>
          filter_entry f v = (True, v) \<and> filter_entry f v = filter_entry g v"
    by (simp add: filter_entry_directory)
  show "c_type w \<noteq> ''directory'' \<longrightarrow> fst (filter_entry f w) = truthy (f w)"
    by (simp add: filter_entry_keep)
  show "filter_items m =
        map (\<lambda>v. snd (filter_entry (filter_fn m) v))
          (filter (\<lambda>v. c_type v = ''directory'' \<or> truthy (filter_fn m v)) (togglable_items m))"
    by (rule filter_items_char)
  show "\<forall>u\<in>set (togglable_items m). c_type u = ''directory'' \<longrightarrow> u \<in> set (filter_items m)"
  proof (intro ballI impI)
    fix u
    assume u: "u \<in> set (togglable_items m)" and d: "c_type u = ''directory''"
    have "snd (filter_entry (filter_fn m) u) = u"
      using d by (simp add: filter_entry_directory)
    moreover have "u \<in> set (filter (\<lambda>v. c_type v = ''directory'' \<or> truthy (filter_fn m v))
                              (togglable_items m))"
      using u d by simp
    ultimately show "u \<in> set (filter_items m)"
      unfolding filter_items_char by (metis (no_types, lifting) image_eqI set_map)
  qed
qed

theorem filter_items_directories_witness:
  "(let d = (d_entry (listing ''src'' []));
        a = plain_file ''a.txt'' ''a.txt'';
        b = plain_file ''b.py'' ''b.py'';
        f = (\<lambda>v. FBool (c_name v = ''a.txt''));
        m = new_filter_model ((new_model False)\<lparr> items := [b, d, a] \<rparr>) None (Some f)
    in togglable_items m = [b, d, a] \<and> c_type d = ''directory'' \<and> filter_entry f d = (True, d)
       \<and> filter_entry f d = filter_entry default_filter d
       \<and> c_type b \<noteq> ''directory'' \<and> \<not> truthy (f b) \<and> \<not> fst (filter_entry f b)
       \<and> d \<in> set (filter_items m) \<and> filter_items m = [d, a])"
  using filter_items_directories
    [where v = "d_entry (listing ''src'' [])" and f = "\<lambda>v. FBool (c_name v = ''a.txt'')"
       and g = default_filter and w = "plain_file ''b.py'' ''b.py''"
       and m = "new_filter_model
           ((new_model False)\<lparr> items := [plain_file ''b.py'' ''b.py'', d_entry (listing ''src'' []),
                                           plain_file ''a.txt'' ''a.txt''] \<rparr>)
           None (Some (\<lambda>v. FBool (c_name v = ''a.txt'')))"]
  by (simp add: new_filter_model_def fb_model.defs togglable_model.defs filter_model.defs
        togglable_items_def starts_with_dot_def filter_entry_def truthy_def new_model_def
        listing_def plain_file_def Let_def)

section \<open>Navigation\<close>

lemmas cd_defs = run_def step_def cd_def cd_target_def cd_issue_def emit_def answer_def
  on_fulfilled_def on_rejected_def not_found_def settle_all_def settle_def resume_def
  handleContents_def onRunningChanged_def populateSessions_def path_def new_model_def
  resolvePath_def listing_def plain_file_def http_error_def Let_def

text \<open>
  While a request is pending, a call for the same resolved target gets the pending promise
  and changes nothing; a call for another target is suspended on the pending promise.
\<close>

lemma cd_joins:
  "pending m = Some p \<Longrightarrow> pendingPath m = Some (cd_target rp target m) \<Longrightarrow>
   cd rp target m = (Joined p, m)"
  by (simp add: cd_def Let_def)

lemma cd_waits:
  "pending m = Some p \<Longrightarrow> pendingPath m \<noteq> Some (cd_target rp target m) \<Longrightarrow>
   cd rp target m = (Waiting p, m\<lparr> waiters := waiters m @ [(p, cd_target rp target m)] \<rparr>)"
  by (simp add: cd_def Let_def)

text \<open>
  Whatever \<^verbatim>\<open>resolvePath\<close> is: when the request two calls are suspended on is answered,
  the requests of both are sent.
\<close>

lemma two_waiters_both_issue:
  assumes "waiters m = [(p, b), (p, c)]" and "inflight m = [(p, a, old)]"
    and "adopted m = []"
  shows "map (fst \<circ> snd) (inflight (answer rp p (Inr contents) m)) = [b, c]"
  using assms
  by (simp add: answer_def on_fulfilled_def settle_all_def settle_def resume_def cd_issue_def
        emit_def handleContents_def onRunningChanged_def populateSessions_def path_def Let_def)

text \<open>
  Claim C1 (at most one directory request of a model is in flight at any time). Two calls
  for targets other than the pending one are both suspended on the pending promise; when
  it settles both resume, and neither looks at \<^verbatim>\<open>_pending\<close> again before sending its
  request. From a new model, \<^verbatim>\<open>cd('a')\<close>, \<^verbatim>\<open>cd('b')\<close>, \<^verbatim>\<open>cd('c')\<close> and then the answer
  to the request for \<^verbatim>\<open>a\<close> leave the requests for \<^verbatim>\<open>b\<close> and for \<^verbatim>\<open>c\<close> in flight together.
\<close>

theorem two_requests_in_flight:
  "(let m = run resolvePath [Cd ''a'', Cd ''b'', Cd ''c'', Answer 0 (Inr (listing ''a'' []))]
              (new_model False)
    in inflight m = [(1, ''b'', ''a''), (2, ''c'', ''a'')]
       \<and> trace m = [ContentsGet ''a'', PathChanged [] ''a'', Refreshed, Refreshed,
                     ContentsGet ''b'', ContentsGet ''c'']
       \<and> pending m = Some 2 \<and> pendingPath m = Some ''c'')"
  by (simp add: cd_defs)

text \<open>
  Claim C5 (a not-found answer for a target other than the root is reported and followed by
  exactly one retry on the root, with no further retry when the root is not found either).
  The handler calls \<^verbatim>\<open>this.cd('/')\<close> unless the resolved target is the string \<^verbatim>\<open>/\<close>. The
  root resolves to the empty path, so the retry's own not-found answer passes the same
  test: from a new model, \<^verbatim>\<open>cd('a')\<close> answered by 404 and the root request answered by
  404 leave a third request, again for the root, in flight.
\<close>

theorem root_retry_repeats:
  "(let m = run resolvePath [Cd ''a'', Answer 0 (Inl (http_error 404)), Answer 1 (Inl (http_error 404))]
              (new_model False)
    in inflight m = [(2, [], [])]
       \<and> filter (\<lambda>e. case e of ContentsGet _ \<Rightarrow> True | _ \<Rightarrow> False) (trace m)
           = [ContentsGet ''a'', ContentsGet [], ContentsGet []]
       \<and> length (filter (\<lambda>e. case e of ConnectionFailure _ \<Rightarrow> True | _ \<Rightarrow> False) (trace m)) = 2)"
  by (simp add: cd_defs)

text \<open>
  What the retry depends on: the not-found handler of the retry sends another request
  exactly when \<^verbatim>\<open>resolvePath\<close> does not resolve \<^verbatim>\<open>/\<close> to the string \<^verbatim>\<open>/\<close>.
\<close>

lemma on_rejected_root:
  assumes "response_status err = Some 404"
  shows "trace (on_rejected rp p (rp (path m) ''/'') err m) =
           (if rp (path m) ''/'' = ''/'' then trace m @ [ConnectionFailure err]
            else trace m @ [ConnectionFailure
                              (err\<lparr> message := ''Directory not found: '' @ [CHR 0x22] @ path m @ [CHR 0x22] \<rparr>),
                            ContentsGet (rp (path m) ''/'')])"
  using assms
  by (simp add: on_rejected_def not_found_def cd_def cd_target_def cd_issue_def emit_def
        path_def Let_def)

text \<open>
  Whatever \<^verbatim>\<open>resolvePath\<close> is: while a request for the empty path is pending and the
  current path is not empty, \<^verbatim>\<open>cd('.')\<close> resolves to the current path and is suspended.
\<close>

lemma dot_with_empty_pending:
  assumes "pending m = Some p" and "pendingPath m = Some []" and "path m \<noteq> []"
  shows "cd_target rp ''.'' m = path m \<and> fst (cd rp ''.'' m) = Waiting p"
  using assms by (simp add: cd_def cd_target_def path_def Let_def)

text \<open>
  Claim C7 (\<^verbatim>\<open>cd('..')\<close> from \<^verbatim>\<open>a/b/c\<close> resolves to \<^verbatim>\<open>a/b\<close>; \<^verbatim>\<open>cd('.')\<close> resolves to the
  pending target if a request is pending, otherwise to the current path). The first half
  holds. For \<^verbatim>\<open>.\<close> the code evaluates \<^verbatim>\<open>this._pendingPath || this._model.path\<close>, and the
  pending path of a request for the root is the empty string, which is falsy: in
  \<^verbatim>\<open>a\<close>, after \<^verbatim>\<open>cd('..')\<close> has sent the request for the root, \<^verbatim>\<open>cd('.')\<close> resolves to \<^verbatim>\<open>a\<close>,
  is suspended, and sends a request for \<^verbatim>\<open>a\<close> once the root has been loaded.
\<close>

theorem dot_skips_pending_root:
  "cd_target resolvePath ''..'' ((new_model False)\<lparr> model := d_entry (listing ''a/b/c'' []) \<rparr>) = ''a/b''
   \<and> cd_target resolvePath ''.'' ((new_model False)\<lparr> model := d_entry (listing ''a/b/c'' []) \<rparr>) = ''a/b/c''
   \<and> (let m = run resolvePath [Cd ''a'', Answer 0 (Inr (listing ''a'' [])), Cd ''..'']
                 (new_model False);
            m' = run resolvePath [Cd ''.'', Answer 1 (Inr (listing [] []))] m
        in path m = ''a'' \<and> pending m = Some 1 \<and> pendingPath m = Some []
           \<and> cd_target resolvePath ''.'' m = ''a''
           \<and> fst (cd resolvePath ''.'' m) = Waiting 1
           \<and> inflight m' = [(2, ''a'', [])])"
  by (simp add: cd_defs)

subsection \<open>Promise identifiers in reachable states\<close>

lemma ordered_new: "ordered (new_model b)"
  by (simp add: ordered_def ids_below_def new_model_def)

lemma ordered_cd_issue: "ordered m \<Longrightarrow> ordered (cd_issue nv m)"
  by (auto simp: ordered_def ids_below_def cd_issue_def Let_def emit_def less_Suc_eq)

lemma ordered_emit: "ordered (emit e m) = ordered m"
  by (simp add: ordered_def ids_below_def emit_def)

lemma ordered_cd: "ordered m \<Longrightarrow> ordered (snd (cd rp target m))"
  by (auto simp: cd_def Let_def ordered_cd_issue split: option.splits)
     (auto simp: ordered_def ids_below_def)

lemma ordered_fold_issue: "ordered m \<Longrightarrow> ordered (fold (\<lambda>w. cd_issue (snd w)) ws m)"
  by (induction ws arbitrary: m) (simp_all add: ordered_cd_issue)

lemma ordered_resume: "ordered m \<Longrightarrow> ordered (resume p m)"
proof -
  assume o: "ordered m"
  have "ordered (m\<lparr> waiters := filter (\<lambda>w. fst w \<noteq> p) (waiters m) \<rparr>)"
    using o by (auto simp: ordered_def ids_below_def)
  then show ?thesis unfolding resume_def by (rule ordered_fold_issue)
qed

lemma ordered_settle: "ordered m \<Longrightarrow> ordered (settle p m)"
proof -
  assume o: "ordered m"
  have "ordered (m\<lparr> settled := settled m @ [p] \<rparr>)"
    using o by (auto simp: ordered_def ids_below_def)
  then show ?thesis unfolding settle_def by (rule ordered_resume)
qed

lemma ordered_fold_settle: "ordered m \<Longrightarrow> ordered (fold settle ps m)"
  by (induction ps arbitrary: m) (simp_all add: ordered_settle)

lemma ordered_fold_resume: "ordered m \<Longrightarrow> ordered (fold resume ps m)"
  by (induction ps arbitrary: m) (simp_all add: ordered_resume)

lemma ordered_settle_all: "ordered m \<Longrightarrow> ordered (settle_all p m)"
  by (simp add: settle_all_def ordered_fold_settle)

lemma ordered_on_fulfilled: "ordered m \<Longrightarrow> ordered (on_fulfilled nv ov c m)"
  by (auto simp: on_fulfilled_def Let_def ordered_def ids_below_def emit_def handleContents_def
        onRunningChanged_def populateSessions_def)

lemma ordered_on_rejected: "ordered m \<Longrightarrow> ordered (on_rejected rp p nv err m)"
proof -
  assume o: "ordered m"
  define m1 where "m1 = m\<lparr> pendingPath := None, pending := None \<rparr>"
  have o1: "ordered m1" using o by (auto simp: m1_def ordered_def ids_below_def)
  have p1: "pending m1 = None" by (simp add: m1_def)
  show ?thesis
  proof (cases "not_found err nv")
    case False
    then show ?thesis using o1 by (simp add: on_rejected_def Let_def m1_def [symmetric] ordered_emit)
  next
    case True
    define m2 where "m2 = emit (ConnectionFailure
        (err\<lparr> message := ''Directory not found: '' @ [CHR 0x22] @ path m1 @ [CHR 0x22] \<rparr>)) m1"
    have o2: "ordered m2" using o1 by (simp add: m2_def ordered_emit)
    have p2: "pending m2 = None" using p1 by (simp add: m2_def emit_def)
    have c: "cd rp ''/'' m2 = (Issued (next_promise m2), cd_issue (cd_target rp ''/'' m2) m2)"
      using p2 by (simp add: cd_def Let_def)
    have o3: "ordered (cd_issue (cd_target rp ''/'' m2) m2)" using o2 by (rule ordered_cd_issue)
    have n3: "next_promise m2 < next_promise (cd_issue (cd_target rp ''/'' m2) m2)"
      by (simp add: cd_issue_def Let_def emit_def)
    have eq: "on_rejected rp p nv err m =
        (cd_issue (cd_target rp ''/'' m2) m2)
          \<lparr> adopted := adopted (cd_issue (cd_target rp ''/'' m2) m2) @ [(p, next_promise m2)] \<rparr>"
      unfolding on_rejected_def Let_def
      unfolding m1_def [symmetric]
      unfolding m2_def [symmetric]
      using True by (simp add: c)
    show ?thesis
      unfolding eq using o3 n3 by (auto simp: ordered_def ids_below_def)
  qed
qed

lemma ordered_answer: "ordered m \<Longrightarrow> ordered (answer rp p r m)"
proof -
  assume o: "ordered m"
  have o0: "ordered (m\<lparr> inflight := filter (\<lambda>x. fst x \<noteq> p) (inflight m) \<rparr>)"
    using o by (auto simp: ordered_def ids_below_def)
  show ?thesis
    using o o0
    by (auto simp: answer_def Let_def ordered_settle_all ordered_on_fulfilled ordered_on_rejected
          split: option.splits sum.splits)
qed

lemma ordered_step: "ordered m \<Longrightarrow> ordered (step rp ev m)"
proof (cases ev)
  case (Cd t) then show "ordered m \<Longrightarrow> ?thesis" by (simp add: step_def ordered_cd)
next
  case (Answer p r) then show "ordered m \<Longrightarrow> ?thesis" by (simp add: step_def ordered_answer)
next
  case Tick then show "ordered m \<Longrightarrow> ?thesis" by (simp add: step_def ordered_fold_resume)
next
  case (RunningChanged ss)
  then show "ordered m \<Longrightarrow> ?thesis"
    by (auto simp: step_def ordered_def ids_below_def onRunningChanged_def populateSessions_def emit_def)
next
  case Dispose
  then show "ordered m \<Longrightarrow> ?thesis"
    by (auto simp: step_def ordered_def ids_below_def dispose_def emit_def)
qed

lemma ordered_run: "ordered m \<Longrightarrow> ordered (run rp evs m)"
  unfolding run_def by (induction evs arbitrary: m) (simp_all add: ordered_step)

lemma reachable_ids_below: "ids_below (run rp evs (new_model b))"
  using ordered_run [OF ordered_new] by (simp add: ordered_def)

subsection \<open>A failed request\<close>

lemma find_new:
  "\<forall>x\<in>set xs. fst x < (p::nat) \<Longrightarrow> find (\<lambda>x. fst x = p) (xs @ [(p, y)]) = Some (p, y)"
  by (induction xs) auto

lemma filter_none: "\<forall>x\<in>set xs. fst x < (p::nat) \<Longrightarrow> filter (\<lambda>x. fst x = p) xs = []"
  by (induction xs) auto

lemma filter_all: "\<forall>x\<in>set xs. fst x < (p::nat) \<Longrightarrow> filter (\<lambda>x. fst x \<noteq> p) xs = xs"
  by (induction xs) auto

lemma settle_chain_new: "\<forall>pq\<in>set xs. snd pq < (q::nat) \<Longrightarrow> settle_chain q xs = [q]"
  by (induction xs) auto

lemma settle_all_new:
  assumes "\<forall>w\<in>set (waiters m). fst w < p" and "\<forall>pq\<in>set (adopted m). snd pq < p"
  shows "settle_all p m = m\<lparr> settled := settled m @ [p] \<rparr>"
  using assms
  by (simp add: settle_all_def settle_chain_new settle_def resume_def filter_none filter_all)

lemma not_found_other: "response_status err \<noteq> Some 404 \<Longrightarrow> \<not> not_found err nv"
  by (simp add: not_found_def)

text \<open>The failure handler on an error that is not a 404.\<close>

lemma on_rejected_other:
  "response_status err \<noteq> Some 404 \<Longrightarrow>
   on_rejected rp p nv err m = emit (ConnectionFailure err) (m\<lparr> pendingPath := None, pending := None \<rparr>)"
  by (simp add: on_rejected_def Let_def not_found_other)

text \<open>Lines 223-231 on the cached state.\<close>

lemma cd_issue_frame:
  "items (cd_issue nv m) = items m"
  "model (cd_issue nv m) = model m"
  "paths (cd_issue nv m) = paths m"
  "sessions (cd_issue nv m) = (if nv = path m then sessions m else [])"
  "trace (cd_issue nv m) = trace m @ [ContentsGet nv]"
  by (auto simp: cd_issue_def Let_def emit_def path_def)

lemma only_fetches_refl: "only_fetches m m"
  by (simp add: only_fetches_def)

lemma only_fetches_trace:
  assumes "only_fetches a b"
  shows "\<exists>xs. trace b = trace a @ xs \<and> list_all is_get xs"
proof -
  have t: "take (length (trace a)) (trace b) = trace a"
    and g: "list_all is_get (drop (length (trace a)) (trace b))"
    using assms by (simp_all add: only_fetches_def)
  have "take (length (trace a)) (trace b) @ drop (length (trace a)) (trace b) = trace b"
    by (rule append_take_drop_id)
  then have "trace b = trace a @ drop (length (trace a)) (trace b)"
    by (simp only: t)
  then show ?thesis
    using g by blast
qed

lemma only_fetches_trans:
  assumes "only_fetches a b" and "only_fetches b c"
  shows "only_fetches a c"
proof -
  obtain xb where b: "trace b = trace a @ xb" and gb: "list_all is_get xb"
    using only_fetches_trace [OF assms(1)] by blast
  obtain xc where c: "trace c = trace b @ xc" and gc: "list_all is_get xc"
    using only_fetches_trace [OF assms(2)] by blast
  have "sessions c = sessions a \<or> sessions c = []"
    using assms by (auto simp: only_fetches_def)
  then show ?thesis
    using assms gb gc by (simp add: only_fetches_def b c)
qed

lemma only_fetches_cd_issue: "only_fetches m (cd_issue nv m)"
  by (simp add: only_fetches_def cd_issue_frame is_get_def)

lemma only_fetches_fold:
  assumes "\<And>x m. only_fetches m (f x m)"
  shows "only_fetches m (fold f xs m)"
proof (induction xs arbitrary: m)
  case Nil
  show ?case by (simp add: only_fetches_refl)
next
  case (Cons x xs)
  show ?case
    using only_fetches_trans [OF assms [of m x] Cons.IH [of "f x m"]] by simp
qed

lemma only_fetches_resume: "only_fetches m (resume p m)"
proof -
  have "only_fetches m (m\<lparr> waiters := filter (\<lambda>w. fst w \<noteq> p) (waiters m) \<rparr>)"
    by (simp add: only_fetches_def)
  moreover have "only_fetches (m\<lparr> waiters := filter (\<lambda>w. fst w \<noteq> p) (waiters m) \<rparr>) (resume p m)"
    unfolding resume_def by (rule only_fetches_fold) (rule only_fetches_cd_issue)
  ultimately show ?thesis by (rule only_fetches_trans)
qed

lemma only_fetches_settle: "only_fetches m (settle p m)"
proof -
  have "only_fetches m (m\<lparr> settled := settled m @ [p] \<rparr>)"
    by (simp add: only_fetches_def)
  then show ?thesis
    unfolding settle_def using only_fetches_resume by (rule only_fetches_trans)
qed

lemma only_fetches_settle_all: "only_fetches m (settle_all p m)"
  unfolding settle_all_def by (rule only_fetches_fold) (rule only_fetches_settle)

text \<open>
  The whole answer to a request in flight, when the error is not a 404: the handler, then
  the calls that waited for the promise.
\<close>

lemma answer_other:
  assumes "response_status err \<noteq> Some 404"
    and "find (\<lambda>x. fst x = p) (inflight m) = Some (p, nv, old)"
  shows "only_fetches
           (emit (ConnectionFailure err)
              (m\<lparr> inflight := filter (\<lambda>x. fst x \<noteq> p) (inflight m), pendingPath := None,
                   pending := None \<rparr>))
           (answer rp p (Inl err) m)"
  using assms only_fetches_settle_all
  by (simp add: answer_def not_found_other on_rejected_other)

text \<open>A call that sends its request at once, answered before anything else happens.\<close>

lemma failed_cd_at_once:
  assumes "pending m = None" and "ids_below m" and "response_status err \<noteq> Some 404"
  shows "run rp [Cd target, Answer (next_promise m) (Inl err)] m =
           (emit (ConnectionFailure err)
              ((cd_issue (cd_target rp target m) m)
                 \<lparr> inflight := inflight m, pendingPath := None, pending := None \<rparr>))
             \<lparr> settled := settled m @ [next_promise m] \<rparr>"
proof -
  define nv where "nv = cd_target rp target m"
  define p where "p = next_promise m"
  define m1 where "m1 = cd_issue nv m"
  have infl: "\<forall>x\<in>set (inflight m). fst x < p" and wt: "\<forall>w\<in>set (waiters m). fst w < p"
    and ad: "\<forall>pq\<in>set (adopted m). snd pq < p"
    using assms(2) by (auto simp: ids_below_def p_def)
  have s1: "step rp (Cd target) m = m1"
    using assms(1) by (simp add: step_def cd_def Let_def m1_def nv_def)
  have i1: "inflight m1 = inflight m @ [(p, nv, path m)]"
    by (simp add: m1_def cd_issue_def Let_def emit_def p_def)
  define m2 where "m2 = emit (ConnectionFailure err)
                           (m1\<lparr> inflight := inflight m, pendingPath := None, pending := None \<rparr>)"
  have w2: "waiters m2 = waiters m" "adopted m2 = adopted m" "settled m2 = settled m"
    by (simp_all add: m2_def m1_def cd_issue_def Let_def emit_def)
  have h: "on_rejected rp p nv err (m1\<lparr> inflight := inflight m \<rparr>) = m2"
    using assms(3) by (simp add: on_rejected_other m2_def)
  have s2: "answer rp p (Inl err) m1 = m2\<lparr> settled := settled m2 @ [p] \<rparr>"
    using assms(3) infl wt ad
    by (simp add: answer_def i1 find_new [OF infl] filter_all [OF infl] not_found_other h
          settle_all_new w2)
  have "run rp [Cd target, Answer (next_promise m) (Inl err)] m
             = m2\<lparr> settled := settled m2 @ [p] \<rparr>"
    by (simp add: run_def s1 step_def [of rp "Answer p (Inl err)"] s2 p_def [symmetric])
  then show ?thesis
    by (simp add: m2_def m1_def nv_def p_def w2 [unfolded m2_def m1_def nv_def])
qed

text \<open>
  Claim C4, as the code has it, for an error that is not a 404. What the code does with a
  404, also with a 404 of the root directory, belongs to the retry against the root
  treated above, and is neither stated nor denied here.
  \<^item> The failure handler (lines 254-268), in whatever state it runs, emits
    \<^verbatim>\<open>connectionFailure\<close> with that error and nothing else, and changes neither the cached
    entries, nor the current directory, nor the listed paths, nor the session list.
  \<^item> Sending the request (lines 223-231), at once or after waiting for a pending request,
    changes neither the cached entries nor the current directory nor the listed paths. It
    leaves the session list alone when the target is the current path and empties it
    otherwise: this is where a failed call differs from the state before the call, and
    the handler does not bring the sessions back.
  \<^item> The answer to a request in flight, in whatever state it arrives: first the handler,
    as above; then the calls that waited for this request send theirs, changing no more
    than sending a request does.
  \<^item> So for a call that sends its request at once and is answered before anything else
    happens, entries, directory and listed paths are those from before the call, and the
    session list is the one from before the call exactly when the target is the current
    path or the list was empty.
\<close>

theorem failed_cd_keeps_listing:
  assumes "response_status err \<noteq> Some 404"
  shows "(let m' = on_rejected rp p nv err m
          in trace m' = trace m @ [ConnectionFailure err]
           \<and> items m' = items m \<and> model m' = model m \<and> paths m' = paths m
           \<and> sessions m' = sessions m \<and> pending m' = None \<and> pendingPath m' = None)
       \<and> (let m' = cd_issue nv1 m1
          in trace m' = trace m1 @ [ContentsGet nv1]
           \<and> items m' = items m1 \<and> model m' = model m1 \<and> paths m' = paths m1
           \<and> sessions m' = (if nv1 = path m1 then sessions m1 else []))
       \<and> (find (\<lambda>x. fst x = p2) (inflight m2) = Some (p2, nv2, old2) \<longrightarrow>
           (let m' = answer rp2 p2 (Inl err) m2
            in take (Suc (length (trace m2))) (trace m') = trace m2 @ [ConnectionFailure err]
             \<and> list_all is_get (drop (Suc (length (trace m2))) (trace m'))
             \<and> items m' = items m2 \<and> model m' = model m2 \<and> paths m' = paths m2
             \<and> (sessions m' = sessions m2 \<or> sessions m' = [])))
       \<and> (pending m3 = None \<and> ids_below m3 \<longrightarrow>
           (let nv = cd_target rp3 target m3;
                m' = run rp3 [Cd target, Answer (next_promise m3) (Inl err)] m3
            in trace m' = trace m3 @ [ContentsGet nv, ConnectionFailure err]
             \<and> items m' = items m3 \<and> model m' = model m3 \<and> paths m' = paths m3
             \<and> sessions m' = (if nv = path m3 then sessions m3 else [])
             \<and> pending m' = None \<and> pendingPath m' = None \<and> inflight m' = inflight m3))"
proof (intro conjI impI)
  show "let m' = on_rejected rp p nv err m
        in trace m' = trace m @ [ConnectionFailure err]
         \<and> items m' = items m \<and> model m' = model m \<and> paths m' = paths m
         \<and> sessions m' = sessions m \<and> pending m' = None \<and> pendingPath m' = None"
    by (simp add: on_rejected_other [OF assms] emit_def)
  show "let m' = cd_issue nv1 m1
        in trace m' = trace m1 @ [ContentsGet nv1]
         \<and> items m' = items m1 \<and> model m' = model m1 \<and> paths m' = paths m1
         \<and> sessions m' = (if nv1 = path m1 then sessions m1 else [])"
    by (simp add: cd_issue_frame)
  show "let m' = answer rp2 p2 (Inl err) m2
        in take (Suc (length (trace m2))) (trace m') = trace m2 @ [ConnectionFailure err]
         \<and> list_all is_get (drop (Suc (length (trace m2))) (trace m'))
         \<and> items m' = items m2 \<and> model m' = model m2 \<and> paths m' = paths m2
         \<and> (sessions m' = sessions m2 \<or> sessions m' = [])"
    if f: "find (\<lambda>x. fst x = p2) (inflight m2) = Some (p2, nv2, old2)"
  proof -
    define mh where
      "mh = emit (ConnectionFailure err)
              (m2\<lparr> inflight := filter (\<lambda>x. fst x \<noteq> p2) (inflight m2), pendingPath := None,
                    pending := None \<rparr>)"
    define m' where "m' = answer rp2 p2 (Inl err) m2"
    have o: "only_fetches mh m'"
      unfolding mh_def m'_def using assms f by (rule answer_other)
    have t: "trace mh = trace m2 @ [ConnectionFailure err]"
      and k: "items mh = items m2" "model mh = model m2" "paths mh = paths m2"
        "sessions mh = sessions m2"
      by (simp_all add: mh_def emit_def)
    obtain xs where x: "trace m' = trace mh @ xs" and g: "list_all is_get xs"
      using only_fetches_trace [OF o] by blast
    show ?thesis
      unfolding Let_def m'_def [symmetric]
      using o g by (simp add: only_fetches_def x t k)
  qed
  show "let nv = cd_target rp3 target m3;
            m' = run rp3 [Cd target, Answer (next_promise m3) (Inl err)] m3
        in trace m' = trace m3 @ [ContentsGet nv, ConnectionFailure err]
         \<and> items m' = items m3 \<and> model m' = model m3 \<and> paths m' = paths m3
         \<and> sessions m' = (if nv = path m3 then sessions m3 else [])
         \<and> pending m' = None \<and> pendingPath m' = None \<and> inflight m' = inflight m3"
    if "pending m3 = None \<and> ids_below m3"
    using that failed_cd_at_once [OF _ _ assms, of m3 rp3 target]
    by (simp add: Let_def emit_def cd_issue_frame)
qed

theorem failed_cd_keeps_listing_witness:
  "(let x = plain_file ''x.ipynb'' ''a/x.ipynb'';
        s = \<lparr> s_id = ''1'', s_path = ''a/x.ipynb'' \<rparr>;
        err = http_error 500;
        m = run resolvePath [Cd ''a'', Answer 0 (Inr (listing ''a'' [x])), RunningChanged [s]]
              (new_model False);
        mh = on_rejected resolvePath 1 ''a/b'' err m;
        mi = cd_issue ''a/b'' m;
        mw = run resolvePath [Cd ''.'', Cd ''b''] m;
        ma = answer resolvePath 1 (Inl err) mw;
        m' = run resolvePath [Cd ''.'', Answer 1 (Inl err)] m
    in response_status err \<noteq> Some 404
       \<and> items m = [x] \<and> path m = ''a'' \<and> sessions m = [s]
       \<and> trace mh = trace m @ [ConnectionFailure err]
       \<and> items mh = [x] \<and> path mh = ''a'' \<and> sessions mh = [s]
       \<and> trace mi = trace m @ [ContentsGet ''a/b'']
       \<and> items mi = [x] \<and> path mi = ''a'' \<and> sessions mi = []
       \<and> find (\<lambda>x. fst x = 1) (inflight mw) = Some (1, ''a'', ''a'')
       \<and> waiters mw = [(1, ''a/b'')] \<and> sessions mw = [s]
       \<and> trace ma = trace mw @ [ConnectionFailure err, ContentsGet ''a/b'']
       \<and> items ma = [x] \<and> path ma = ''a'' \<and> sessions ma = []
       \<and> pending m = None \<and> ids_below m
       \<and> trace m' = trace m @ [ContentsGet ''a'', ConnectionFailure err]
       \<and> items m' = [x] \<and> path m' = ''a'' \<and> sessions m' = [s])"
  using failed_cd_keeps_listing
    [where err = "http_error 500"
       and m = "run resolvePath
           [Cd ''a'', Answer 0 (Inr (listing ''a'' [plain_file ''x.ipynb'' ''a/x.ipynb''])),
            RunningChanged [\<lparr> s_id = ''1'', s_path = ''a/x.ipynb'' \<rparr>]]
           (new_model False)"
       and rp = resolvePath and p = 1 and nv = "''a/b''"
       and ?m1.0 = "run resolvePath
           [Cd ''a'', Answer 0 (Inr (listing ''a'' [plain_file ''x.ipynb'' ''a/x.ipynb''])),
            RunningChanged [\<lparr> s_id = ''1'', s_path = ''a/x.ipynb'' \<rparr>]]
           (new_model False)"
       and ?nv1.0 = "''a/b''"
       and ?m2.0 = "run resolvePath
           [Cd ''a'', Answer 0 (Inr (listing ''a'' [plain_file ''x.ipynb'' ''a/x.ipynb''])),
            RunningChanged [\<lparr> s_id = ''1'', s_path = ''a/x.ipynb'' \<rparr>], Cd ''.'', Cd ''b'']
           (new_model False)"
       and ?rp2.0 = resolvePath and ?p2.0 = 1 and ?nv2.0 = "''a''" and ?old2.0 = "''a''"
       and ?m3.0 = "run resolvePath
           [Cd ''a'', Answer 0 (Inr (listing ''a'' [plain_file ''x.ipynb'' ''a/x.ipynb''])),
            RunningChanged [\<lparr> s_id = ''1'', s_path = ''a/x.ipynb'' \<rparr>]]
           (new_model False)"
       and ?rp3.0 = resolvePath and target = "''.''"]
  by (simp add: cd_defs ids_below_def is_get_def)

text \<open>
  The claim as the specification states it fails where the target is another directory:
  in \<^verbatim>\<open>a\<close> with one listed session, \<^verbatim>\<open>cd('b')\<close> answered by a 500 error leaves the listing
  and the path, and an empty session list.
\<close>

theorem failed_cd_clears_sessions:
  "(let x = plain_file ''x.ipynb'' ''a/x.ipynb'';
        s = \<lparr> s_id = ''1'', s_path = ''a/x.ipynb'' \<rparr>;
        m = run resolvePath [Cd ''a'', Answer 0 (Inr (listing ''a'' [x])), RunningChanged [s]]
              (new_model False);
        m' = run resolvePath [Cd ''b'', Answer 1 (Inl (http_error 500))] m
    in pending m = None \<and> sessions m = [s] \<and> items m' = items m \<and> path m' = path m
       \<and> trace m' = trace m @ [ContentsGet ''a/b'', ConnectionFailure (http_error 500)]
       \<and> sessions m' = [] \<and> sessions m' \<noteq> sessions m)"
  by (simp add: cd_defs)

section \<open>Uploads\<close>

lemmas upload_defs = p_upload_def uploadInner_def uploadCheckDisposed_def upload_path_def
  path_def emit_def dispose_def new_model_def new_address_def splice_def CHUNK_SIZE_def
  listing_def plain_file_def http_error_def steady_def Let_def

subsection \<open>Arrays and addresses\<close>

lemma CHUNK_pos: "0 < CHUNK_SIZE"
  by (simp add: CHUNK_SIZE_def)

lemma last_chunk_iff:
  "(f_size f \<le> k * CHUNK_SIZE + CHUNK_SIZE) = (pieces f \<le> Suc k)"
proof -
  have "(pieces f \<le> Suc k) = (pieces f < Suc (Suc k))" by auto
  also have "\<dots> = (f_size f + CHUNK_SIZE - 1 < Suc (Suc k) * CHUNK_SIZE)"
    unfolding pieces_def using CHUNK_pos by (simp add: div_less_iff_less_mult)
  also have "\<dots> = (f_size f \<le> k * CHUNK_SIZE + CHUNK_SIZE)"
    using CHUNK_pos by auto
  finally show ?thesis by simp
qed

lemma pieces_ge2: "CHUNK_SIZE < f_size f \<Longrightarrow> 2 \<le> pieces f"
proof -
  assume a: "CHUNK_SIZE < f_size f"
  have "\<not> pieces f \<le> Suc 0"
    using a last_chunk_iff [of f 0] by simp
  then show ?thesis by simp
qed

lemma fold_max_ge: "(c::nat) \<le> fold max xs c \<and> (\<forall>x\<in>set xs. x \<le> fold max xs c)"
proof (induction xs arbitrary: c)
  case Nil
  show ?case by simp
next
  case (Cons y ys)
  have "max y c \<le> fold max ys (max y c)" using Cons.IH by blast
  moreover have "\<forall>x\<in>set ys. x \<le> fold max ys (max y c)" using Cons.IH by blast
  ultimately show ?case by auto
qed

lemma fold_max_le: "(c::nat) \<le> b \<Longrightarrow> \<forall>x\<in>set xs. x \<le> b \<Longrightarrow> fold max xs c \<le> b"
  by (induction xs arbitrary: c) auto

lemma new_address_above: "x \<in> set us \<Longrightarrow> u_id x < new_address us"
  using fold_max_ge [of 0 "map u_id us"] by (auto simp: new_address_def less_Suc_eq_le)

lemma new_address_max:
  assumes "\<forall>x\<in>set us. u_id x \<le> b" and "\<exists>x\<in>set us. u_id x = b"
  shows "new_address us = Suc b"
proof -
  have "fold max (map u_id us) 0 \<le> b"
    using assms(1) by (intro fold_max_le) auto
  moreover have "b \<le> fold max (map u_id us) 0"
    using assms(2) fold_max_ge [of 0 "map u_id us"] by auto
  ultimately show ?thesis by (simp add: new_address_def)
qed

lemma indexOf_absent: "x \<notin> set xs \<Longrightarrow> indexOf xs x = -1"
  by (induction xs) (auto simp: Let_def)

lemma indexOf_last: "x \<notin> set xs \<Longrightarrow> indexOf (xs @ [x]) x = int (length xs)"
  by (induction xs) (auto simp: Let_def)

lemma splice_minus_one: "splice (-1) xs = butlast xs"
  by (cases xs rule: rev_cases) (auto simp: splice_def Let_def)

lemma splice_last: "x \<notin> set xs \<Longrightarrow> splice (indexOf (xs @ [x]) x) (xs @ [x]) = xs"
  by (simp add: indexOf_last splice_def Let_def)

subsection \<open>A chunked upload whose pieces all succeed\<close>

lemma uploadInner_ok:
  assumes "ok_piece pe" and "\<not> isDisposed m"
  shows "\<exists>r. save_answer pe = Inr r
            \<and> uploadInner pe pth c m = (Inr r, emit (ContentsSave pth c) m)"
  using assms
  by (auto simp: ok_piece_def uploadInner_def uploadCheckDisposed_def emit_def Let_def
           split: sum.splits)

lemma prev_item_id: "u_id (prev_item a pth f k) = a + k"
  by (simp add: prev_item_def start_item_def piece_item_def split: nat.splits)

lemma prev_item_Suc: "prev_item a pth f (Suc k) = piece_item a pth f k"
  by (simp add: prev_item_def)

text \<open>
  The loop from piece \<open>k\<close> on. \<open>base\<close> is what \<^verbatim>\<open>splice(indexOf(upload))\<close> leaves of
  \<^verbatim>\<open>_uploads\<close>; its objects are older than the upload's.
\<close>

lemma chunk_loop_ok:
  assumes ok: "\<forall>j<pieces f. ok_piece (env j)"
  shows "k < pieces f \<Longrightarrow> \<not> isDisposed m \<Longrightarrow> cur = prev_item a pth f k \<Longrightarrow>
         \<forall>x\<in>set (uploads m). u_id x \<le> a + k \<Longrightarrow>
         splice (indexOf (uploads m) cur) (uploads m) = base \<Longrightarrow>
         \<forall>x\<in>set base. u_id x < a \<Longrightarrow>
         \<exists>r m'. chunk_loop env f pth (k * CHUNK_SIZE) cur m = (Inr r, m')
            \<and> save_answer (env (pieces f - 1)) = Inr r
            \<and> trace m' = trace m @ concat (map (piece_events a pth f) [k..<pieces f])
                 @ [UploadChanged UFinish None (Some (piece_item a pth f (pieces f - 1)))]
            \<and> uploads m' = base \<and> \<not> isDisposed m'"
proof (induction "pieces f - k" arbitrary: k m cur)
  case 0
  then show ?case by simp
next
  case (Suc d)
  define newU where "newU = piece_item a pth f k"
  define m2 where
    "m2 = emit (UploadChanged UUpdate (Some newU) (Some cur)) (m\<lparr> uploads := base @ [newU] \<rparr>)"
  define chunk where "chunk = chunk_no f k"
  have na: "new_address (cur # uploads m) = Suc (a + k)"
    using Suc.prems(3,4) by (intro new_address_max) (auto simp: prev_item_id)
  have ek: "k * CHUNK_SIZE div CHUNK_SIZE = k"
    "(k * CHUNK_SIZE + CHUNK_SIZE) div CHUNK_SIZE = Suc k"
    using CHUNK_pos by simp_all
  have nd2: "\<not> isDisposed m2" using Suc.prems(2) by (simp add: m2_def emit_def)
  obtain r where r: "save_answer (env k) = Inr r"
    and inner: "uploadInner (env k) pth (Some chunk) m2
                  = (Inr r, emit (ContentsSave pth (Some chunk)) m2)"
    using uploadInner_ok [OF ok [rule_format, OF Suc.prems(1)] nd2, of pth "Some chunk"] by blast
  define m3 where "m3 = emit (ContentsSave pth (Some chunk)) m2"
  have up3: "uploads m3 = base @ [newU]" by (simp add: m3_def m2_def emit_def)
  have tr3: "trace m3 = trace m @ piece_events a pth f k"
    by (simp add: m3_def m2_def emit_def piece_events_def newU_def chunk_def Suc.prems(3))
  have nd3: "\<not> isDisposed m3" using nd2 by (simp add: m3_def emit_def)
  have notin: "newU \<notin> set base"
    using Suc.prems(6) by (auto simp: newU_def piece_item_def)
  have sp: "splice (indexOf (uploads m3) newU) (uploads m3) = base"
    using notin by (simp add: up3 splice_last)
  have lit: "\<lparr> u_id = Suc (a + k), u_path = pth,
               u_progress = of_nat (k * CHUNK_SIZE) / of_nat (f_size f) \<rparr> = newU"
    by (simp add: newU_def piece_item_def)
  have ch: "(if f_size f \<le> k * CHUNK_SIZE + CHUNK_SIZE then - 1 else int (Suc k)) = chunk"
    by (auto simp: chunk_def chunk_no_def last_chunk_iff)
  note step = chunk_loop.simps [of env f pth "k * CHUNK_SIZE" cur m]
  have unfold: "chunk_loop env f pth (k * CHUNK_SIZE) cur m =
      (if pieces f \<le> Suc k
       then (Inr r, emit (UploadChanged UFinish None (Some newU)) (m3\<lparr> uploads := base \<rparr>))
       else chunk_loop env f pth (k * CHUNK_SIZE + CHUNK_SIZE) newU m3)"
    unfolding step Let_def na ek Suc.prems(5) lit ch m2_def [symmetric] inner
    by (simp add: m3_def [symmetric] sp last_chunk_iff)
  show ?case
  proof (cases "pieces f \<le> Suc k")
    case True
    with Suc.prems(1) have pk: "pieces f = Suc k" by simp
    show ?thesis
      unfolding unfold using True r
      by (simp add: pk emit_def tr3 nd3 newU_def)
  next
    case False
    then have lt: "Suc k < pieces f" by simp
    have d: "d = pieces f - Suc k" using Suc.hyps(2) by simp
    have ids: "\<forall>x\<in>set (uploads m3). u_id x \<le> a + Suc k"
      using Suc.prems(6) by (auto simp: up3 newU_def piece_item_def less_imp_le)
    have eq: "Suc k * CHUNK_SIZE = k * CHUNK_SIZE + CHUNK_SIZE" by simp
    have up: "[k..<pieces f] = k # [Suc k..<pieces f]"
      using Suc.prems(1) by (simp add: upt_conv_Cons)
    from Suc.hyps(1) [OF d lt nd3 _ ids sp Suc.prems(6)]
    obtain r' m' where
      "chunk_loop env f pth (k * CHUNK_SIZE + CHUNK_SIZE) newU m3 = (Inr r', m')"
      "save_answer (env (pieces f - 1)) = Inr r'"
      "trace m' = trace m3 @ concat (map (piece_events a pth f) [Suc k..<pieces f])
                 @ [UploadChanged UFinish None (Some (piece_item a pth f (pieces f - 1)))]"
      "uploads m' = base" "\<not> isDisposed m'"
      unfolding eq by (auto simp: newU_def prev_item_Suc)
    then show ?thesis
      unfolding unfold using False by (simp add: tr3 up)
  qed
qed

text \<open>
  Claim C2, as the code has it. For a file above the chunk size whose pieces are all read
  and saved while the model is not disposed, \<^verbatim>\<open>_upload\<close> in chunked mode emits exactly:
  one \<^verbatim>\<open>start\<close> with progress 0; then, for each piece in turn, an \<^verbatim>\<open>update\<close> and after it
  the save of the piece, the update carrying as progress the bytes sent before the piece
  (its offset) divided by the size; then one \<^verbatim>\<open>finish\<close>, after the save of the last piece,
  which carries chunk \<open>-1\<close>. The first update repeats the progress 0 of \<^verbatim>\<open>start\<close>, and the
  progress of the updates increases strictly. There are at least two pieces. Afterwards
  none of the objects of this upload is in \<^verbatim>\<open>_uploads\<close>, and the call returns what the last
  save answered. Progress is the exact quotient here, a floating-point one in the code.
\<close>

theorem chunked_upload_events:
  assumes "\<forall>j<pieces f. ok_piece (env j)" and "CHUNK_SIZE < f_size f" and "\<not> isDisposed m"
  shows "(let n = pieces f; a = new_address (uploads m); pth = upload_path m f;
              r = p_upload env f True m
          in (\<exists>e. save_answer (env (n - 1)) = Inr e \<and> fst r = Inr e)
           \<and> trace (snd r) =
               trace m @ [UploadChanged UStart (Some (start_item a pth)) None]
                 @ concat (map (piece_events a pth f) [0..<n])
                 @ [UploadChanged UFinish None (Some (piece_item a pth f (n - 1)))]
           \<and> uploads (snd r) = butlast (uploads m)
           \<and> start_item a pth \<notin> set (uploads (snd r))
           \<and> (\<forall>j. piece_item a pth f j \<notin> set (uploads (snd r)))
           \<and> u_progress (piece_item a pth f 0) = 0
           \<and> (\<forall>i j. i < j \<longrightarrow> u_progress (piece_item a pth f i) < u_progress (piece_item a pth f j))
           \<and> 2 \<le> n)"
proof -
  define a where "a = new_address (uploads m)"
  define pth where "pth = upload_path m f"
  define m1 where "m1 = emit (UploadChanged UStart (Some (start_item a pth)) None) m"
  have n2: "2 \<le> pieces f" using assms(2) by (rule pieces_ge2)
  have below: "\<forall>x\<in>set (uploads m). u_id x < a"
    by (simp add: a_def new_address_above)
  have fresh: "start_item a pth \<notin> set (uploads m)"
    using below by (auto simp: start_item_def)
  have sp: "splice (indexOf (uploads m1) (start_item a pth)) (uploads m1) = butlast (uploads m)"
    using fresh by (simp add: m1_def emit_def indexOf_absent splice_minus_one)
  have below1: "\<forall>x\<in>set (butlast (uploads m)). u_id x < a"
    using below by (auto dest: in_set_butlastD)
  have ids: "\<forall>x\<in>set (uploads m1). u_id x \<le> a + 0"
    using below by (auto simp: m1_def emit_def less_imp_le)
  have nd: "\<not> isDisposed m1" using assms(3) by (simp add: m1_def emit_def)
  have "0 < pieces f" using n2 by simp
  from chunk_loop_ok [OF assms(1) this nd _ ids sp below1, of pth]
  obtain r m' where
    run: "chunk_loop env f pth 0 (start_item a pth) m1 = (Inr r, m')"
    and res: "save_answer (env (pieces f - 1)) = Inr r"
    and tr: "trace m' = trace m1 @ concat (map (piece_events a pth f) [0..<pieces f])
                 @ [UploadChanged UFinish None (Some (piece_item a pth f (pieces f - 1)))]"
    and up: "uploads m' = butlast (uploads m)"
    by (auto simp: prev_item_def)
  have pu: "p_upload env f True m = (Inr r, m')"
    using run by (simp add: p_upload_def Let_def a_def pth_def m1_def start_item_def)
  have absent: "piece_item a pth f j \<notin> set (butlast (uploads m))" for j
    using below1 by (auto simp: piece_item_def)
  have fresh': "start_item a pth \<notin> set (butlast (uploads m))"
    using fresh by (auto dest: in_set_butlastD)
  have pos: "(0::rat) < of_nat (f_size f)" using assms(2) by simp
  have mono: "u_progress (piece_item a pth f i) < u_progress (piece_item a pth f j)"
    if "i < j" for i j
    using that pos CHUNK_pos by (simp add: piece_item_def divide_strict_right_mono)
  show ?thesis
    unfolding Let_def a_def [symmetric] pth_def [symmetric] pu
    using res tr up absent fresh' mono n2
    by (simp add: m1_def emit_def piece_item_def)
qed

theorem chunked_upload_events_witness:
  "(let e = plain_file ''f.bin'' ''f.bin'';
        env = steady (Inr e);
        f = \<lparr> f_name = ''f.bin'', f_size = 3000000 \<rparr>;
        m = new_model False;
        r = p_upload env f True m;
        u0 = \<lparr> u_id = 1, u_path = ''f.bin'', u_progress = 0 \<rparr>;
        u1 = \<lparr> u_id = 2, u_path = ''f.bin'', u_progress = 0 \<rparr>;
        u2 = \<lparr> u_id = 3, u_path = ''f.bin'', u_progress = 1048576 / 3000000 \<rparr>;
        u3 = \<lparr> u_id = 4, u_path = ''f.bin'', u_progress = 2097152 / 3000000 \<rparr>
    in (\<forall>j. ok_piece (env j)) \<and> CHUNK_SIZE < f_size f \<and> \<not> isDisposed m
       \<and> pieces f = 3 \<and> fst r = Inr e
       \<and> trace (snd r) =
           [UploadChanged UStart (Some u0) None,
            UploadChanged UUpdate (Some u1) (Some u0), ContentsSave ''f.bin'' (Some 1),
            UploadChanged UUpdate (Some u2) (Some u1), ContentsSave ''f.bin'' (Some 2),
            UploadChanged UUpdate (Some u3) (Some u2), ContentsSave ''f.bin'' (Some (- 1)),
            UploadChanged UFinish None (Some u3)]
       \<and> uploads (snd r) = [])"
  using chunked_upload_events
    [where env = "steady (Inr (plain_file ''f.bin'' ''f.bin''))"
       and f = "\<lparr> f_name = ''f.bin'', f_size = 3000000 \<rparr>" and m = "new_model False"]
  by (simp add: upload_defs ok_piece_def pieces_def chunk_loop.simps start_item_def piece_item_def
        prev_item_def piece_events_def chunk_no_def upt_conv_Cons)

text \<open>
  The order the specification states (an update after each saved piece) is not the order
  of the code: in the same upload the first \<^verbatim>\<open>update\<close> is emitted before anything has
  been saved, and the save of the last piece is followed by \<^verbatim>\<open>finish\<close>, not by an update.
\<close>

theorem update_precedes_piece:
  "(let env = steady (Inr (plain_file ''f.bin'' ''f.bin''));
        f = \<lparr> f_name = ''f.bin'', f_size = 3000000 \<rparr>;
        tr = trace (snd (p_upload env f True (new_model False)))
    in take 3 tr =
         [UploadChanged UStart (Some \<lparr> u_id = 1, u_path = ''f.bin'', u_progress = 0 \<rparr>) None,
          UploadChanged UUpdate (Some \<lparr> u_id = 2, u_path = ''f.bin'', u_progress = 0 \<rparr>)
            (Some \<lparr> u_id = 1, u_path = ''f.bin'', u_progress = 0 \<rparr>),
          ContentsSave ''f.bin'' (Some 1)]
       \<and> length (filter is_update tr) = 3
       \<and> map is_update (drop 6 tr) = [False, False]
       \<and> \<not> update_after_piece tr)"
  by (simp add: upload_defs chunk_loop.simps update_after_piece_def is_update_def is_save_def)

subsection \<open>A chunked upload with a failing piece\<close>

text \<open>
  Claim C3 (after a failed piece there is exactly one \<^verbatim>\<open>failure\<close> event, no further piece
  is sent, and the failed upload is no longer in \<^verbatim>\<open>_uploads\<close>). The handler removes the
  first element whose \<^verbatim>\<open>path\<close> equals \<^verbatim>\<open>file.name\<close>, and the path of an upload is the
  name only in the root directory. In the directory \<^verbatim>\<open>dir\<close>, with the save of the first
  piece of \<^verbatim>\<open>f.bin\<close> answered by an error, one \<^verbatim>\<open>failure\<close> is emitted and no further
  piece is sent, and the object of the upload stays in \<^verbatim>\<open>_uploads\<close>.
\<close>

theorem failed_upload_stays_tracked:
  "(let env = steady (Inl (http_error 500));
        f = \<lparr> f_name = ''f.bin'', f_size = 3000000 \<rparr>;
        m = (new_model False)\<lparr> model := d_entry (listing ''dir'' []) \<rparr>;
        r = p_upload env f True m;
        u0 = \<lparr> u_id = 1, u_path = ''dir/f.bin'', u_progress = 0 \<rparr>;
        u1 = \<lparr> u_id = 2, u_path = ''dir/f.bin'', u_progress = 0 \<rparr>
    in fst r = Inl (SaveFailed (http_error 500))
       \<and> trace (snd r) =
           [UploadChanged UStart (Some u0) None,
            UploadChanged UUpdate (Some u1) (Some u0),
            ContentsSave ''dir/f.bin'' (Some 1),
            UploadChanged UFailure (Some u1) None]
       \<and> uploads (snd r) = [u1])"
  by (simp add: upload_defs chunk_loop.simps)

subsection \<open>Disposal during an upload\<close>

lemma uploadInner_disposed: "isDisposed m \<Longrightarrow> uploadInner pe pth c m = (Inl Disposed, m)"
  by (simp add: uploadInner_def uploadCheckDisposed_def)

lemma uploadInner_dispose_in_read:
  "\<not> isDisposed m \<Longrightarrow> dispose_in_read pe \<Longrightarrow> read_ok pe \<Longrightarrow>
   uploadInner pe pth c m = (Inl Disposed, dispose m)"
  by (simp add: uploadInner_def uploadCheckDisposed_def dispose_def emit_def)

lemma chunk_loop_disposed:
  assumes "isDisposed m"
  shows "fst (chunk_loop env f pth start cur m) = Inl Disposed
      \<and> trace (snd (chunk_loop env f pth start cur m)) =
          trace m @ [UploadChanged UUpdate (Some (next_item cur pth f start (uploads m))) (Some cur),
                     UploadChanged UFailure (Some (next_item cur pth f start (uploads m))) None]"
  using assms
  by (simp add: chunk_loop.simps [of env f pth start cur m] Let_def uploadInner_disposed
        emit_def next_item_def)

lemma chunk_loop_dispose_in_read:
  assumes "\<not> isDisposed m" and "dispose_in_read (env (start div CHUNK_SIZE))"
    and "read_ok (env (start div CHUNK_SIZE))"
  shows "fst (chunk_loop env f pth start cur m) = Inl Disposed
      \<and> trace (snd (chunk_loop env f pth start cur m)) =
          trace m @ [UploadChanged UUpdate (Some (next_item cur pth f start (uploads m))) (Some cur),
                     SignalsCleared,
                     UploadChanged UFailure (Some (next_item cur pth f start (uploads m))) None]"
  using assms
  by (simp add: chunk_loop.simps [of env f pth start cur m] Let_def
        uploadInner_dispose_in_read emit_def next_item_def dispose_def)

lemma chunk_loop_dispose_in_save:
  assumes "\<not> isDisposed m" and "read_ok (env (start div CHUNK_SIZE))"
    and "\<not> dispose_in_read (env (start div CHUNK_SIZE))"
    and "dispose_in_save (env (start div CHUNK_SIZE))"
    and "save_answer (env (start div CHUNK_SIZE)) = Inr e"
    and "start + CHUNK_SIZE < f_size f"
  shows "(let nu = next_item cur pth f start (uploads m);
              us = splice (indexOf (uploads m) cur) (uploads m) @ [nu];
              nu' = next_item nu pth f (start + CHUNK_SIZE) us;
              r = chunk_loop env f pth start cur m
          in fst r = Inl Disposed
           \<and> trace (snd r) =
               trace m @ [UploadChanged UUpdate (Some nu) (Some cur),
                          ContentsSave pth (Some (int ((start + CHUNK_SIZE) div CHUNK_SIZE))),
                          SignalsCleared,
                          UploadChanged UUpdate (Some nu') (Some nu),
                          UploadChanged UFailure (Some nu') None])"
proof -
  define nu where "nu = next_item cur pth f start (uploads m)"
  define us where "us = splice (indexOf (uploads m) cur) (uploads m) @ [nu]"
  define m3 where
    "m3 = dispose (emit (ContentsSave pth (Some (int ((start + CHUNK_SIZE) div CHUNK_SIZE))))
            (emit (UploadChanged UUpdate (Some nu) (Some cur)) (m\<lparr> uploads := us \<rparr>)))"
  have d3: "isDisposed m3" by (simp add: m3_def dispose_def emit_def)
  have u3: "uploads m3 = us" by (simp add: m3_def dispose_def emit_def)
  have t3: "trace m3 = trace m @ [UploadChanged UUpdate (Some nu) (Some cur),
             ContentsSave pth (Some (int ((start + CHUNK_SIZE) div CHUNK_SIZE))), SignalsCleared]"
    using assms(1) by (simp add: m3_def dispose_def emit_def)
  have "chunk_loop env f pth start cur m = chunk_loop env f pth (start + CHUNK_SIZE) nu m3"
    using assms
    by (simp add: chunk_loop.simps [of env f pth start cur m] Let_def uploadInner_def
          uploadCheckDisposed_def emit_def nu_def us_def next_item_def m3_def)
  then show ?thesis
    using chunk_loop_disposed [OF d3, of env f pth "start + CHUNK_SIZE" nu]
    unfolding Let_def nu_def [symmetric] us_def [symmetric]
    by (simp add: t3 u3)
qed

lemma upload_dispose_in_read:
  assumes "\<not> isDisposed m" and "dispose_in_read (env 0)" and "read_ok (env 0)"
  shows "fst (p_upload env f False m) = Inl Disposed
      \<and> trace (snd (p_upload env f False m)) = trace m @ [SignalsCleared]"
  using assms
  by (simp add: p_upload_def Let_def uploadInner_dispose_in_read dispose_def emit_def)

lemma refresh_fulfilled:
  "ok \<Longrightarrow> \<not> isDisposed (pl m) \<Longrightarrow> refresh pl ok m = (True, emit Refreshed (pl m))"
  by (simp add: refresh_def)

lemma refresh_disposed: "isDisposed (pl m) \<Longrightarrow> refresh pl ok m = (False, pl m)"
  by (simp add: refresh_def)

lemma isDisposed_emit: "isDisposed (emit e m) = isDisposed m"
  by (simp add: emit_def)

lemma items_emit: "items (emit e m) = items m"
  by (simp add: emit_def)

lemma isDisposed_dispose: "isDisposed (dispose m)"
  by (simp add: dispose_def emit_def)

text \<open>\<^verbatim>\<open>upload\<close> from the refresh on, when the large-file dialog is passed.\<close>

lemma upload_past_large:
  assumes "\<not> isDisposed m"
    and "f_size f \<le> LARGE_FILE_SIZE \<or> (supportsChunked env \<and> accept_large env \<and> \<not> dispose_in_large env)"
    and "refresh_ok env" and "\<not> isDisposed (poll env m)"
  shows "upload env f m =
     (let m2 = emit Refreshed (poll env m);
          found = (find (\<lambda>i. c_name i = f_name f) (items m2) \<noteq> None);
          m3 = (if found \<and> dispose_in_overwrite env then dispose m2 else m2)
      in if found \<and> \<not> overwrite env then (Inl NotUploaded, m3)
         else if isDisposed m3 then (Inl Disposed, m3)
         else p_upload (piece env) f (supportsChunked env \<and> f_size f > CHUNK_SIZE) m3)"
proof -
  have r: "refresh (poll env) (refresh_ok env) m = (True, emit Refreshed (poll env m))"
    using assms(3,4) by (simp add: refresh_def)
  show ?thesis
  proof (cases "f_size f \<le> LARGE_FILE_SIZE")
    case True
    then show ?thesis
      using assms(1,4)
      by (simp add: upload_def uploadCheckDisposed_def r isDisposed_emit Let_def
            not_less [symmetric])
  next
    case False
    with assms(2) have "supportsChunked env" "accept_large env" "\<not> dispose_in_large env"
      by auto
    then show ?thesis
      using assms(1,4) False
      by (simp add: upload_def uploadCheckDisposed_def r isDisposed_emit Let_def)
  qed
qed

lemma upload_transfer:
  assumes "\<not> isDisposed m"
    and "f_size f \<le> LARGE_FILE_SIZE \<or> (supportsChunked env \<and> accept_large env \<and> \<not> dispose_in_large env)"
    and "refresh_ok env" and "\<not> isDisposed (poll env m)"
    and "find (\<lambda>i. c_name i = f_name f) (items (poll env m)) = None
         \<or> (overwrite env \<and> \<not> dispose_in_overwrite env)"
  shows "upload env f m =
           p_upload (piece env) f (supportsChunked env \<and> CHUNK_SIZE < f_size f)
             (emit Refreshed (poll env m))"
  unfolding upload_past_large [OF assms(1,2,3,4)]
  using assms(4,5) by (auto simp: Let_def isDisposed_emit items_emit)

lemma upload_dispose_in_large:
  assumes "\<not> isDisposed m" and "LARGE_FILE_SIZE < f_size f" and "supportsChunked env"
    and "accept_large env" and "dispose_in_large env"
  shows "upload env f m = (Inl Disposed, dispose m)"
  using assms
  by (simp add: upload_def uploadCheckDisposed_def dispose_def emit_def Let_def)

text \<open>
  A disposal during the refresh: the poll rejects, \<^verbatim>\<open>upload\<close> rejects with the error of the
  poll and goes no further.
\<close>

lemma upload_dispose_in_refresh:
  assumes "\<not> isDisposed m"
    and "f_size f \<le> LARGE_FILE_SIZE \<or> (supportsChunked env \<and> accept_large env \<and> \<not> dispose_in_large env)"
    and "isDisposed (poll env m)"
  shows "upload env f m = (Inl RefreshFailed, poll env m)"
proof -
  have r: "refresh (poll env) (refresh_ok env) m = (False, poll env m)"
    using assms(3) by (simp add: refresh_def)
  show ?thesis
  proof (cases "f_size f \<le> LARGE_FILE_SIZE")
    case True
    then show ?thesis
      using assms(1)
      by (simp add: upload_def uploadCheckDisposed_def r Let_def not_less [symmetric])
  next
    case False
    with assms(2) have "supportsChunked env" "accept_large env" "\<not> dispose_in_large env"
      by auto
    then show ?thesis
      using assms(1) False
      by (simp add: upload_def uploadCheckDisposed_def r Let_def)
  qed
qed

lemma upload_dispose_in_overwrite:
  assumes "\<not> isDisposed m"
    and "f_size f \<le> LARGE_FILE_SIZE \<or> (supportsChunked env \<and> accept_large env \<and> \<not> dispose_in_large env)"
    and "refresh_ok env" and "\<not> isDisposed (poll env m)"
    and "find (\<lambda>i. c_name i = f_name f) (items (poll env m)) \<noteq> None"
    and "overwrite env" and "dispose_in_overwrite env"
  shows "upload env f m = (Inl Disposed, dispose (emit Refreshed (poll env m)))"
  unfolding upload_past_large [OF assms(1,2,3,4)]
  using assms(4,5,6,7) by (simp add: Let_def isDisposed_emit items_emit isDisposed_dispose)

subsection \<open>What a slot receives, and what is saved, behind a disposal\<close>

lemma received_closed: "SignalsCleared \<in> set tr \<Longrightarrow> received (tr @ xs) = received tr"
  by (simp add: received_def takeWhile_append1 [where x = SignalsCleared])

lemma received_open:
  "SignalsCleared \<notin> set tr \<Longrightarrow> received (tr @ xs) = received tr @ received xs"
proof -
  assume a: "SignalsCleared \<notin> set tr"
  then have "\<And>x. x \<in> set tr \<Longrightarrow> x \<noteq> SignalsCleared" by auto
  then have t: "takeWhile (\<lambda>e. e \<noteq> SignalsCleared) (tr @ xs)
                   = tr @ takeWhile (\<lambda>e. e \<noteq> SignalsCleared) xs"
    by (rule takeWhile_append2)
  have u: "takeWhile (\<lambda>e. e \<noteq> SignalsCleared) tr = tr"
    using a by (induction tr) auto
  show ?thesis unfolding received_def t by (simp add: u)
qed

lemma saves_behind_closed:
  "SignalsCleared \<in> set tr \<Longrightarrow>
   saves_behind_disposal (tr @ xs) = saves_behind_disposal tr @ filter is_save xs"
  by (simp add: saves_behind_disposal_def dropWhile_append1 [where x = SignalsCleared])

lemma saves_behind_open:
  "SignalsCleared \<notin> set tr \<Longrightarrow> saves_behind_disposal (tr @ xs) = saves_behind_disposal xs"
proof -
  assume a: "SignalsCleared \<notin> set tr"
  then have "\<And>x. x \<in> set tr \<Longrightarrow> x \<noteq> SignalsCleared" by auto
  then show ?thesis by (simp add: saves_behind_disposal_def dropWhile_append2)
qed

lemma saves_behind_none: "SignalsCleared \<notin> set tr \<Longrightarrow> saves_behind_disposal tr = []"
  using saves_behind_open [of tr "[]"] by (simp add: saves_behind_disposal_def)

text \<open>
  The invariant of the transfer: flag and trace agree, and no save stands behind the
  disposal. It holds of a model that has not been disposed of, and every step keeps it.
\<close>

lemma coherent_new_model: "coherent (new_model st)"
  by (simp add: coherent_def new_model_def)

lemma quiet_start:
  "coherent m \<Longrightarrow> \<not> isDisposed m \<Longrightarrow> saves_behind_disposal (trace m) = []"
  by (simp add: coherent_def saves_behind_none)

lemma quiet_emit:
  assumes "coherent m" and "saves_behind_disposal (trace m) = []"
    and "e \<noteq> SignalsCleared" and "isDisposed m \<longrightarrow> \<not> is_save e"
  shows "coherent (emit e m) \<and> saves_behind_disposal (trace (emit e m)) = []"
proof (cases "isDisposed m")
  case True
  with assms(1) have "SignalsCleared \<in> set (trace m)" by (simp add: coherent_def)
  then show ?thesis
    using assms True by (simp add: coherent_def emit_def saves_behind_closed)
next
  case False
  with assms(1) have n: "SignalsCleared \<notin> set (trace m)" by (simp add: coherent_def)
  have "saves_behind_disposal (trace m @ [e]) = saves_behind_disposal [e]"
    using n by (rule saves_behind_open)
  then show ?thesis
    using assms False n by (simp add: coherent_def emit_def saves_behind_disposal_def)
qed

lemma quiet_dispose:
  assumes "coherent m" and "saves_behind_disposal (trace m) = []"
  shows "coherent (dispose m) \<and> saves_behind_disposal (trace (dispose m)) = []"
proof (cases "isDisposed m")
  case True
  then show ?thesis using assms by (simp add: dispose_def)
next
  case False
  with assms(1) have n: "SignalsCleared \<notin> set (trace m)" by (simp add: coherent_def)
  have "saves_behind_disposal (trace m @ [SignalsCleared]) = saves_behind_disposal [SignalsCleared]"
    using n by (rule saves_behind_open)
  then show ?thesis
    using False
    by (simp add: coherent_def dispose_def emit_def saves_behind_disposal_def is_save_def)
qed

lemma quiet_uploads:
  "coherent (m\<lparr> uploads := us \<rparr>) = coherent m"
  "trace (m\<lparr> uploads := us \<rparr>) = trace m"
  "isDisposed (m\<lparr> uploads := us \<rparr>) = isDisposed m"
  by (simp_all add: coherent_def)

lemma quiet_uploadInner:
  assumes "coherent m" and "saves_behind_disposal (trace m) = []"
  shows "coherent (snd (uploadInner pe pth c m))
       \<and> saves_behind_disposal (trace (snd (uploadInner pe pth c m))) = []"
proof (cases "isDisposed m")
  case True
  then show ?thesis using assms by (simp add: uploadInner_disposed)
next
  case False
  define m1 where "m1 = (if dispose_in_read pe then dispose m else m)"
  have q1: "coherent m1 \<and> saves_behind_disposal (trace m1) = []"
    using assms quiet_dispose [OF assms] by (simp add: m1_def)
  show ?thesis
  proof (cases "read_ok pe \<and> \<not> isDisposed m1")
    case False
    then show ?thesis
      using q1 \<open>\<not> isDisposed m\<close>
      by (auto simp: uploadInner_def uploadCheckDisposed_def Let_def m1_def [symmetric])
  next
    case True
    define m2 where "m2 = emit (ContentsSave pth c) m1"
    have q2: "coherent m2 \<and> saves_behind_disposal (trace m2) = []"
      unfolding m2_def using q1 True by (intro quiet_emit) simp_all
    define m3 where "m3 = (if dispose_in_save pe then dispose m2 else m2)"
    have q3: "coherent m3 \<and> saves_behind_disposal (trace m3) = []"
      using q2 quiet_dispose [of m2] by (simp add: m3_def)
    have "snd (uploadInner pe pth c m) = m3"
      using True [unfolded m1_def] \<open>\<not> isDisposed m\<close>
      by (simp add: uploadInner_def uploadCheckDisposed_def Let_def m1_def m2_def m3_def
            split: sum.split)
    then show ?thesis using q3 by simp
  qed
qed

lemma quiet_chunk_loop:
  assumes "coherent m" and "saves_behind_disposal (trace m) = []"
  shows "coherent (snd (chunk_loop env f pth start cur m))
       \<and> saves_behind_disposal (trace (snd (chunk_loop env f pth start cur m))) = []"
  using assms
proof (induction "f_size f - start" arbitrary: start cur m rule: less_induct)
  case less
  define nu where "nu = next_item cur pth f start (uploads m)"
  define chunk where
    "chunk = (if start + CHUNK_SIZE \<ge> f_size f then -1 else int ((start + CHUNK_SIZE) div CHUNK_SIZE))"
  define m2 where
    "m2 = emit (UploadChanged UUpdate (Some nu) (Some cur))
            (m\<lparr> uploads := splice (indexOf (uploads m) cur) (uploads m) @ [nu] \<rparr>)"
  have q2: "coherent m2 \<and> saves_behind_disposal (trace m2) = []"
    unfolding m2_def using less.prems
    by (intro quiet_emit) (simp_all add: quiet_uploads is_save_def)
  obtain r m3 where u: "uploadInner (env (start div CHUNK_SIZE)) pth (Some chunk) m2 = (r, m3)"
    by fastforce
  have q3: "coherent m3 \<and> saves_behind_disposal (trace m3) = []"
    using quiet_uploadInner [of m2 "env (start div CHUNK_SIZE)" pth "Some chunk"] q2 u by simp
  note step = chunk_loop.simps [of env f pth start cur m]
  show ?case
  proof (cases r)
    case (Inl err)
    have "snd (chunk_loop env f pth start cur m) =
            emit (UploadChanged UFailure (Some nu) None)
              (m3\<lparr> uploads := removeFirstWhere (\<lambda>u. f_name f = u_path u) (uploads m3) \<rparr>)"
      unfolding step Let_def
      using u Inl by (simp add: nu_def next_item_def chunk_def m2_def)
    then show ?thesis
      using q3 quiet_emit [of "m3\<lparr> uploads := removeFirstWhere (\<lambda>u. f_name f = u_path u) (uploads m3) \<rparr>"
                             "UploadChanged UFailure (Some nu) None"]
      by (simp add: quiet_uploads is_save_def)
  next
    case (Inr x)
    show ?thesis
    proof (cases "start + CHUNK_SIZE \<ge> f_size f")
      case True
      have "snd (chunk_loop env f pth start cur m) =
              emit (UploadChanged UFinish None (Some nu))
                (m3\<lparr> uploads := splice (indexOf (uploads m3) nu) (uploads m3) \<rparr>)"
        unfolding step Let_def
        using u Inr True by (simp add: nu_def next_item_def chunk_def m2_def)
      then show ?thesis
        using q3 quiet_emit [of "m3\<lparr> uploads := splice (indexOf (uploads m3) nu) (uploads m3) \<rparr>"
                               "UploadChanged UFinish None (Some nu)"]
        by (simp add: quiet_uploads is_save_def)
    next
      case False
      have "chunk_loop env f pth start cur m = chunk_loop env f pth (start + CHUNK_SIZE) nu m3"
        unfolding step Let_def
        using u Inr False by (simp add: nu_def next_item_def chunk_def m2_def)
      moreover have "f_size f - (start + CHUNK_SIZE) < f_size f - start"
        using False CHUNK_pos by simp
      ultimately show ?thesis
        using less.hyps [of "start + CHUNK_SIZE" m3 nu] q3 by simp
    qed
  qed
qed

lemma quiet_p_upload:
  assumes "coherent m" and "saves_behind_disposal (trace m) = []"
  shows "coherent (snd (p_upload env f chunked m))
       \<and> saves_behind_disposal (trace (snd (p_upload env f chunked m))) = []"
proof (cases chunked)
  case False
  obtain r m1 where u: "uploadInner (env 0) (upload_path m f) None m = (r, m1)" by fastforce
  have "coherent m1 \<and> saves_behind_disposal (trace m1) = []"
    using quiet_uploadInner [OF assms, of "env 0" "upload_path m f" None] u by simp
  then show ?thesis
    using False u by (simp add: p_upload_def Let_def quiet_uploads split: sum.split)
next
  case True
  define m1 where
    "m1 = emit (UploadChanged UStart
                  (Some \<lparr> u_id = new_address (uploads m), u_path = upload_path m f,
                          u_progress = 0 \<rparr>) None) m"
  have "coherent m1 \<and> saves_behind_disposal (trace m1) = []"
    unfolding m1_def using assms by (intro quiet_emit) (simp_all add: is_save_def)
  then show ?thesis
    using True quiet_chunk_loop [of m1 env f "upload_path m f" 0]
    by (simp add: p_upload_def Let_def m1_def)
qed

text \<open>On a disposed model the transfer rejects, saves nothing and reaches no slot.\<close>

lemma chunk_loop_disposed_quiet:
  assumes "isDisposed m" and "coherent m"
  shows "fst (chunk_loop env f pth start cur m) = Inl Disposed
       \<and> isDisposed (snd (chunk_loop env f pth start cur m))
       \<and> filter is_save (trace (snd (chunk_loop env f pth start cur m))) = filter is_save (trace m)
       \<and> received (trace (snd (chunk_loop env f pth start cur m))) = received (trace m)"
proof -
  have c: "SignalsCleared \<in> set (trace m)" using assms by (simp add: coherent_def)
  have d: "isDisposed (snd (chunk_loop env f pth start cur m))"
    using assms(1)
    by (simp add: chunk_loop.simps [of env f pth start cur m] Let_def uploadInner_disposed
          emit_def)
  show ?thesis
    using chunk_loop_disposed [OF assms(1), of env f pth start cur] d
    by (simp add: received_closed [OF c] is_save_def)
qed

lemma p_upload_disposed_quiet:
  assumes "isDisposed m" and "coherent m"
  shows "fst (p_upload env f chunked m) = Inl Disposed
       \<and> isDisposed (snd (p_upload env f chunked m))
       \<and> filter is_save (trace (snd (p_upload env f chunked m))) = filter is_save (trace m)
       \<and> received (trace (snd (p_upload env f chunked m))) = received (trace m)"
proof (cases chunked)
  case False
  then show ?thesis
    using assms(1) by (simp add: p_upload_def Let_def uploadInner_disposed)
next
  case True
  define m1 where
    "m1 = emit (UploadChanged UStart
                  (Some \<lparr> u_id = new_address (uploads m), u_path = upload_path m f,
                          u_progress = 0 \<rparr>) None) m"
  have c: "SignalsCleared \<in> set (trace m)" using assms by (simp add: coherent_def)
  have d1: "isDisposed m1" "coherent m1"
    using assms by (simp_all add: m1_def emit_def coherent_def)
  have t1: "filter is_save (trace m1) = filter is_save (trace m)"
    "received (trace m1) = received (trace m)"
    using received_closed [OF c] by (simp_all add: m1_def emit_def is_save_def)
  have "p_upload env f chunked m = chunk_loop env f (upload_path m f) 0
          \<lparr> u_id = new_address (uploads m), u_path = upload_path m f, u_progress = 0 \<rparr> m1"
    using True by (simp add: p_upload_def Let_def m1_def)
  then show ?thesis
    using chunk_loop_disposed_quiet [OF d1, of env f "upload_path m f" 0] t1 by simp
qed

text \<open>
  Claim C8. \<^verbatim>\<open>dispose()\<close> sets the flag \<^verbatim>\<open>_isDisposed\<close> and clears the connections of the
  signals. From then on every \<^verbatim>\<open>_uploadCheckDisposed\<close> rejects with the disposed error,
  nothing more is saved, and no slot receives a further \<^verbatim>\<open>uploadChanged\<close> event:
  \<^item> on a disposed model \<^verbatim>\<open>uploadInner\<close> rejects at its first check and does nothing else,
    and the transfer (\<^verbatim>\<open>_upload\<close> in either mode, or the chunk loop entered again) rejects
    with the disposed error, adds no save and nothing to what a slot has received;
  \<^item> a disposal while a piece is read is met by the check behind the read: the upload
    rejects with the disposed error, the piece is not saved, and the last event a slot
    has received is the \<^verbatim>\<open>update\<close> emitted before the read;
  \<^item> a disposal while a piece other than the last is saved (the save succeeding) is met
    by the first check of the next piece: the upload rejects with the disposed error, the
    save in flight is the last one, and a slot has received nothing behind the \<^verbatim>\<open>update\<close> of
    the piece in flight;
  \<^item> a disposal while a dialog of \<^verbatim>\<open>upload\<close> is open (and accepted) is met by the check
    behind the dialog, before anything is saved or emitted;
  \<^item> whatever the pieces of a transfer meet, and whenever the model is disposed of, no save
    stands behind the disposal.

  The chunk loop treats the rejection as it treats every failure of a piece, and calls
  \<^verbatim>\<open>emit\<close> for a \<^verbatim>\<open>failure\<close> event on its way out (and for the \<^verbatim>\<open>update\<close> of the next
  piece before that piece's check): these calls stand behind \<open>SignalsCleared\<close> in the
  trace and reach no slot.
\<close>

theorem disposed_upload_rejects:
  "(isDisposed m0 \<longrightarrow> uploadInner pe pth0 c m0 = (Inl Disposed, m0))
   \<and> (isDisposed m7 \<and> coherent m7 \<longrightarrow>
       (let r = p_upload env7 f7 chunked7 m7
        in fst r = Inl Disposed
         \<and> filter is_save (trace (snd r)) = filter is_save (trace m7)
         \<and> received (trace (snd r)) = received (trace m7)))
   \<and> (isDisposed m8 \<and> coherent m8 \<longrightarrow>
       (let r = chunk_loop env8 f8 pth8 start8 upload8 m8
        in fst r = Inl Disposed
         \<and> filter is_save (trace (snd r)) = filter is_save (trace m8)
         \<and> received (trace (snd r)) = received (trace m8)))
   \<and> (\<not> isDisposed m1 \<and> coherent m1 \<and> dispose_in_read (env1 (start1 div CHUNK_SIZE))
        \<and> read_ok (env1 (start1 div CHUNK_SIZE)) \<longrightarrow>
       (let nu = next_item upload1 pth1 f1 start1 (uploads m1);
            r = chunk_loop env1 f1 pth1 start1 upload1 m1
        in fst r = Inl Disposed
         \<and> trace (snd r) =
             trace m1 @ [UploadChanged UUpdate (Some nu) (Some upload1), SignalsCleared,
                         UploadChanged UFailure (Some nu) None]
         \<and> received (trace (snd r)) =
             received (trace m1) @ [UploadChanged UUpdate (Some nu) (Some upload1)]))
   \<and> (\<not> isDisposed m2 \<and> coherent m2 \<and> read_ok (env2 (start2 div CHUNK_SIZE))
        \<and> \<not> dispose_in_read (env2 (start2 div CHUNK_SIZE))
        \<and> dispose_in_save (env2 (start2 div CHUNK_SIZE))
        \<and> save_answer (env2 (start2 div CHUNK_SIZE)) = Inr e
        \<and> start2 + CHUNK_SIZE < f_size f2 \<longrightarrow>
       (let nu = next_item upload2 pth2 f2 start2 (uploads m2);
            us = splice (indexOf (uploads m2) upload2) (uploads m2) @ [nu];
            nu' = next_item nu pth2 f2 (start2 + CHUNK_SIZE) us;
            r = chunk_loop env2 f2 pth2 start2 upload2 m2
        in fst r = Inl Disposed
         \<and> trace (snd r) =
             trace m2 @ [UploadChanged UUpdate (Some nu) (Some upload2),
                         ContentsSave pth2 (Some (int ((start2 + CHUNK_SIZE) div CHUNK_SIZE))),
                         SignalsCleared,
                         UploadChanged UUpdate (Some nu') (Some nu),
                         UploadChanged UFailure (Some nu') None]
         \<and> received (trace (snd r)) =
             received (trace m2) @ [UploadChanged UUpdate (Some nu) (Some upload2)]))
   \<and> (\<not> isDisposed m3 \<and> dispose_in_read (env3 0) \<and> read_ok (env3 0) \<longrightarrow>
       fst (p_upload env3 f3 False m3) = Inl Disposed
       \<and> trace (snd (p_upload env3 f3 False m3)) = trace m3 @ [SignalsCleared])
   \<and> (\<not> isDisposed m4 \<and> LARGE_FILE_SIZE < f_size f4 \<and> supportsChunked env4
        \<and> accept_large env4 \<and> dispose_in_large env4 \<longrightarrow>
       upload env4 f4 m4 = (Inl Disposed, dispose m4))
   \<and> (\<not> isDisposed m6 \<and> f_size f6 \<le> LARGE_FILE_SIZE \<and> refresh_ok env6
        \<and> \<not> isDisposed (poll env6 m6)
        \<and> find (\<lambda>i. c_name i = f_name f6) (items (poll env6 m6)) \<noteq> None
        \<and> overwrite env6 \<and> dispose_in_overwrite env6 \<longrightarrow>
       upload env6 f6 m6 = (Inl Disposed, dispose (emit Refreshed (poll env6 m6))))
   \<and> (\<not> isDisposed m9 \<and> coherent m9 \<longrightarrow>
       saves_behind_disposal (trace (snd (p_upload env9 f9 chunked9 m9))) = [])"
proof (intro conjI impI)
  show "uploadInner pe pth0 c m0 = (Inl Disposed, m0)" if "isDisposed m0"
    using that by (rule uploadInner_disposed)
  show "let r = p_upload env7 f7 chunked7 m7
        in fst r = Inl Disposed
         \<and> filter is_save (trace (snd r)) = filter is_save (trace m7)
         \<and> received (trace (snd r)) = received (trace m7)"
    if "isDisposed m7 \<and> coherent m7"
    using that p_upload_disposed_quiet [where m = m7 and env = env7 and f = f7 and chunked = chunked7]
    by (simp add: Let_def)
  show "let r = chunk_loop env8 f8 pth8 start8 upload8 m8
        in fst r = Inl Disposed
         \<and> filter is_save (trace (snd r)) = filter is_save (trace m8)
         \<and> received (trace (snd r)) = received (trace m8)"
    if "isDisposed m8 \<and> coherent m8"
    using that chunk_loop_disposed_quiet
      [where m = m8 and env = env8 and f = f8 and pth = pth8 and start = start8 and cur = upload8]
    by (simp add: Let_def)
  show "let nu = next_item upload1 pth1 f1 start1 (uploads m1);
            r = chunk_loop env1 f1 pth1 start1 upload1 m1
        in fst r = Inl Disposed
         \<and> trace (snd r) =
             trace m1 @ [UploadChanged UUpdate (Some nu) (Some upload1), SignalsCleared,
                         UploadChanged UFailure (Some nu) None]
         \<and> received (trace (snd r)) =
             received (trace m1) @ [UploadChanged UUpdate (Some nu) (Some upload1)]"
    if h: "\<not> isDisposed m1 \<and> coherent m1 \<and> dispose_in_read (env1 (start1 div CHUNK_SIZE))
        \<and> read_ok (env1 (start1 div CHUNK_SIZE))"
  proof -
    have n: "SignalsCleared \<notin> set (trace m1)" using h by (auto simp: coherent_def)
    show ?thesis
      using h chunk_loop_dispose_in_read
        [where m = m1 and env = env1 and start = start1 and f = f1 and pth = pth1 and cur = upload1]
      by (simp add: Let_def received_open [OF n]) (simp add: received_def is_signal_def)
  qed
  show "let nu = next_item upload2 pth2 f2 start2 (uploads m2);
            us = splice (indexOf (uploads m2) upload2) (uploads m2) @ [nu];
            nu' = next_item nu pth2 f2 (start2 + CHUNK_SIZE) us;
            r = chunk_loop env2 f2 pth2 start2 upload2 m2
        in fst r = Inl Disposed
         \<and> trace (snd r) =
             trace m2 @ [UploadChanged UUpdate (Some nu) (Some upload2),
                         ContentsSave pth2 (Some (int ((start2 + CHUNK_SIZE) div CHUNK_SIZE))),
                         SignalsCleared,
                         UploadChanged UUpdate (Some nu') (Some nu),
                         UploadChanged UFailure (Some nu') None]
         \<and> received (trace (snd r)) =
             received (trace m2) @ [UploadChanged UUpdate (Some nu) (Some upload2)]"
    if h: "\<not> isDisposed m2 \<and> coherent m2 \<and> read_ok (env2 (start2 div CHUNK_SIZE))
        \<and> \<not> dispose_in_read (env2 (start2 div CHUNK_SIZE))
        \<and> dispose_in_save (env2 (start2 div CHUNK_SIZE))
        \<and> save_answer (env2 (start2 div CHUNK_SIZE)) = Inr e
        \<and> start2 + CHUNK_SIZE < f_size f2"
  proof -
    have n: "SignalsCleared \<notin> set (trace m2)" using h by (auto simp: coherent_def)
    show ?thesis
      using h chunk_loop_dispose_in_save
        [where m = m2 and env = env2 and start = start2 and e = e and f = f2 and pth = pth2
           and cur = upload2]
      by (simp add: Let_def received_open [OF n]) (simp add: received_def is_signal_def)
  qed
  show "fst (p_upload env3 f3 False m3) = Inl Disposed"
    if "\<not> isDisposed m3 \<and> dispose_in_read (env3 0) \<and> read_ok (env3 0)"
    using that upload_dispose_in_read [where m = m3 and env = env3 and f = f3] by blast
  show "trace (snd (p_upload env3 f3 False m3)) = trace m3 @ [SignalsCleared]"
    if "\<not> isDisposed m3 \<and> dispose_in_read (env3 0) \<and> read_ok (env3 0)"
    using that upload_dispose_in_read [where m = m3 and env = env3 and f = f3] by blast
  show "upload env4 f4 m4 = (Inl Disposed, dispose m4)"
    if "\<not> isDisposed m4 \<and> LARGE_FILE_SIZE < f_size f4 \<and> supportsChunked env4
        \<and> accept_large env4 \<and> dispose_in_large env4"
    using that upload_dispose_in_large [where m = m4 and env = env4 and f = f4] by blast
  show "upload env6 f6 m6 = (Inl Disposed, dispose (emit Refreshed (poll env6 m6)))"
    if "\<not> isDisposed m6 \<and> f_size f6 \<le> LARGE_FILE_SIZE \<and> refresh_ok env6
        \<and> \<not> isDisposed (poll env6 m6)
        \<and> find (\<lambda>i. c_name i = f_name f6) (items (poll env6 m6)) \<noteq> None
        \<and> overwrite env6 \<and> dispose_in_overwrite env6"
    using that upload_dispose_in_overwrite [where m = m6 and env = env6 and f = f6] by blast
  show "saves_behind_disposal (trace (snd (p_upload env9 f9 chunked9 m9))) = []"
    if "\<not> isDisposed m9 \<and> coherent m9"
    using that quiet_p_upload [where m = m9 and env = env9 and f = f9 and chunked = chunked9]
      quiet_start [of m9]
    by simp
qed

theorem disposed_upload_rejects_witness:
  "(let e = plain_file ''f.bin'' ''f.bin'';
        f = \<lparr> f_name = ''f.bin'', f_size = 3000000 \<rparr>;
        big = \<lparr> f_name = ''f.bin'', f_size = 16000000 \<rparr>;
        m = new_model False;
        rd = (\<lambda>k. \<lparr> read_ok = True, dispose_in_read = True, save_answer = Inr e,
                      dispose_in_save = False \<rparr>);
        sv = (\<lambda>k. \<lparr> read_ok = True, dispose_in_read = False, save_answer = Inr e,
                      dispose_in_save = True \<rparr>);
        u0 = \<lparr> u_id = 1, u_path = ''f.bin'', u_progress = 0 \<rparr>;
        u1 = \<lparr> u_id = 2, u_path = ''f.bin'', u_progress = 0 \<rparr>;
        u2 = \<lparr> u_id = 3, u_path = ''f.bin'', u_progress = 1048576 / 3000000 \<rparr>;
        r7 = p_upload (steady (Inr e)) f True (dispose m);
        r8 = chunk_loop (steady (Inr e)) f ''f.bin'' 0 u0 (dispose m);
        r1 = chunk_loop rd f ''f.bin'' 0 u0 m;
        r2 = chunk_loop sv f ''f.bin'' 0 u0 m;
        r3 = p_upload rd f False m;
        r4 = upload ((calm e)\<lparr> dispose_in_large := True \<rparr>) big m;
        r6 = upload ((calm e)\<lparr> poll := (\<lambda>m. m\<lparr> items := [e] \<rparr>), dispose_in_overwrite := True \<rparr>) f m;
        r9 = p_upload sv f True m
    in isDisposed (dispose m) \<and> coherent (dispose m)
       \<and> uploadInner (rd 0) ''f.bin'' None (dispose m) = (Inl Disposed, dispose m)
       \<and> fst r7 = Inl Disposed \<and> filter is_save (trace (snd r7)) = []
       \<and> received (trace (snd r7)) = []
       \<and> fst r8 = Inl Disposed \<and> filter is_save (trace (snd r8)) = []
       \<and> received (trace (snd r8)) = []
       \<and> \<not> isDisposed m \<and> coherent m
       \<and> fst r1 = Inl Disposed
       \<and> trace (snd r1) =
           [UploadChanged UUpdate (Some u1) (Some u0), SignalsCleared,
            UploadChanged UFailure (Some u1) None]
       \<and> received (trace (snd r1)) = [UploadChanged UUpdate (Some u1) (Some u0)]
       \<and> fst r2 = Inl Disposed
       \<and> trace (snd r2) =
           [UploadChanged UUpdate (Some u1) (Some u0), ContentsSave ''f.bin'' (Some 1),
            SignalsCleared, UploadChanged UUpdate (Some u2) (Some u1),
            UploadChanged UFailure (Some u2) None]
       \<and> received (trace (snd r2)) = [UploadChanged UUpdate (Some u1) (Some u0)]
       \<and> fst r3 = Inl Disposed \<and> trace (snd r3) = [SignalsCleared]
       \<and> LARGE_FILE_SIZE < f_size big
       \<and> fst r4 = Inl Disposed \<and> trace (snd r4) = [SignalsCleared]
       \<and> fst r6 = Inl Disposed \<and> trace (snd r6) = [Refreshed, SignalsCleared]
       \<and> saves_behind_disposal (trace (snd r9)) = [])"
  using disposed_upload_rejects
    [where ?m0.0 = "dispose (new_model False)"
       and pe = "\<lparr> read_ok = True, dispose_in_read = True,
                    save_answer = Inr (plain_file ''f.bin'' ''f.bin''), dispose_in_save = False \<rparr>"
       and ?pth0.0 = "''f.bin''" and c = None
       and ?m7.0 = "dispose (new_model False)"
       and ?env7.0 = "steady (Inr (plain_file ''f.bin'' ''f.bin''))"
       and ?f7.0 = "\<lparr> f_name = ''f.bin'', f_size = 3000000 \<rparr>"
       and ?chunked7.0 = True
       and ?m8.0 = "dispose (new_model False)"
       and ?env8.0 = "steady (Inr (plain_file ''f.bin'' ''f.bin''))"
       and ?f8.0 = "\<lparr> f_name = ''f.bin'', f_size = 3000000 \<rparr>"
       and ?pth8.0 = "''f.bin''" and ?start8.0 = 0
       and ?upload8.0 = "\<lparr> u_id = 1, u_path = ''f.bin'', u_progress = 0 \<rparr>"
       and ?m1.0 = "new_model False"
       and ?env1.0 = "\<lambda>k. \<lparr> read_ok = True, dispose_in_read = True,
                               save_answer = Inr (plain_file ''f.bin'' ''f.bin''),
                               dispose_in_save = False \<rparr>"
       and ?start1.0 = 0 and ?f1.0 = "\<lparr> f_name = ''f.bin'', f_size = 3000000 \<rparr>"
       and ?pth1.0 = "''f.bin''"
       and ?upload1.0 = "\<lparr> u_id = 1, u_path = ''f.bin'', u_progress = 0 \<rparr>"
       and ?m2.0 = "new_model False"
       and ?env2.0 = "\<lambda>k. \<lparr> read_ok = True, dispose_in_read = False,
                               save_answer = Inr (plain_file ''f.bin'' ''f.bin''),
                               dispose_in_save = True \<rparr>"
       and e = "plain_file ''f.bin'' ''f.bin''"
       and ?start2.0 = 0 and ?f2.0 = "\<lparr> f_name = ''f.bin'', f_size = 3000000 \<rparr>"
       and ?pth2.0 = "''f.bin''"
       and ?upload2.0 = "\<lparr> u_id = 1, u_path = ''f.bin'', u_progress = 0 \<rparr>"
       and ?m3.0 = "new_model False"
       and ?env3.0 = "\<lambda>k. \<lparr> read_ok = True, dispose_in_read = True,
                               save_answer = Inr (plain_file ''f.bin'' ''f.bin''),
                               dispose_in_save = False \<rparr>"
       and ?f3.0 = "\<lparr> f_name = ''f.bin'', f_size = 3000000 \<rparr>"
       and ?m4.0 = "new_model False"
       and ?env4.0 = "(calm (plain_file ''f.bin'' ''f.bin''))\<lparr> dispose_in_large := True \<rparr>"
       and ?f4.0 = "\<lparr> f_name = ''f.bin'', f_size = 16000000 \<rparr>"
       and ?m6.0 = "new_model False"
       and ?env6.0 = "(calm (plain_file ''f.bin'' ''f.bin''))
                        \<lparr> poll := (\<lambda>m. m\<lparr> items := [plain_file ''f.bin'' ''f.bin''] \<rparr>),
                          dispose_in_overwrite := True \<rparr>"
       and ?f6.0 = "\<lparr> f_name = ''f.bin'', f_size = 3000000 \<rparr>"
       and ?m9.0 = "new_model False"
       and ?env9.0 = "\<lambda>k. \<lparr> read_ok = True, dispose_in_read = False,
                               save_answer = Inr (plain_file ''f.bin'' ''f.bin''),
                               dispose_in_save = True \<rparr>"
       and ?f9.0 = "\<lparr> f_name = ''f.bin'', f_size = 3000000 \<rparr>"
       and ?chunked9.0 = True]
  by (simp del: chunk_loop.simps
        add: new_model_def dispose_def emit_def coherent_def received_def is_signal_def
          is_save_def next_item_def new_address_def splice_def CHUNK_SIZE_def
          LARGE_FILE_SIZE_def calm_def plain_file_def steady_def Let_def)

end
